theory Spec2Isabelle
  imports Main
begin

section \<open>JavaScript values used by the worker\<close>

text \<open>
  A value of type \<open>string | undefined | null\<close> is a \<open>string option\<close>. JavaScript's
  truthiness test on such a value (\<^verbatim>\<open>if (cached)\<close>, \<^verbatim>\<open>!v.connectionId\<close>,
  \<^verbatim>\<open>if (newSessionId)\<close>) holds for a non-empty string only.
\<close>

definition truthy :: "string option \<Rightarrow> bool" where
  "truthy v = (case v of None \<Rightarrow> False | Some s \<Rightarrow> s \<noteq> [])"

text \<open>
  What a \<^verbatim>\<open>catch\<close> clause receives: an \<^verbatim>\<open>Error\<close> object with its message, or
  any other thrown value (for which \<^verbatim>\<open>error instanceof Error\<close> is false).
\<close>

datatype thrown = JsError string | NonError

section \<open>The session registry (\<^verbatim>\<open>sessionCache\<close>)\<close>

text \<open>
  \<^verbatim>\<open>interface SessionInfo { sessionId: string; lastUsed: number; inUse: boolean }\<close>.
  \<open>lastUsed\<close> holds a value of \<^verbatim>\<open>Date.now()\<close>, an integral number of milliseconds.
\<close>

record SessionInfo =
  sessionId :: string
  lastUsed :: int
  inUse :: bool

text \<open>
  \<^verbatim>\<open>const sessionCache = new Map<string, SessionInfo>()\<close>. Each of the source's
  \<^verbatim>\<open>sessionCache.set(k, v)\<close> calls has \<^verbatim>\<open>v.sessionId === k\<close>, so the map is kept as the
  list of its values in insertion order (the order in which a JavaScript \<^verbatim>\<open>Map\<close>
  iterates), looked up by their \<open>sessionId\<close>.
\<close>

type_synonym registry = "SessionInfo list"

definition cache_get :: "string \<Rightarrow> registry \<Rightarrow> SessionInfo option" where
  "cache_get k c = find (\<lambda>i. sessionId i = k) c"

definition cache_has :: "string \<Rightarrow> registry \<Rightarrow> bool" where
  "cache_has k c = (cache_get k c \<noteq> None)"

definition cache_delete :: "string \<Rightarrow> registry \<Rightarrow> registry" where
  "cache_delete k c = filter (\<lambda>i. sessionId i \<noteq> k) c"

text \<open>\<^verbatim>\<open>Map.prototype.set\<close>: an existing key keeps its position, a new key goes last.\<close>

fun cache_set :: "SessionInfo \<Rightarrow> registry \<Rightarrow> registry" where
  "cache_set v [] = [v]"
| "cache_set v (i # c) = (if sessionId i = sessionId v then v # c else i # cache_set v c)"

text \<open>
  Assignment to a field of an object that is stored in the map
  (\<^verbatim>\<open>info.inUse = true\<close>, \<^verbatim>\<open>sessionInfo.inUse = false\<close>): the map holds a reference to the
  object, so the entry under the object's \<open>sessionId\<close> changes.
\<close>

definition cache_modify :: "string \<Rightarrow> (SessionInfo \<Rightarrow> SessionInfo) \<Rightarrow> registry \<Rightarrow> registry" where
  "cache_modify k f c = map (\<lambda>i. if sessionId i = k then f i else i) c"

definition SESSION_TIMEOUT :: int where
  "SESSION_TIMEOUT = 30 * 60 * 1000"

definition MAX_SESSIONS :: nat where
  "MAX_SESSIONS = 5"

section \<open>The Browser Service's session list\<close>

text \<open>
  An element of the array \<^verbatim>\<open>puppeteer.sessions(endpoint)\<close> resolves to. The source reads its
  \<^verbatim>\<open>sessionId\<close> (here \<open>activeId\<close>, the record \<open>SessionInfo\<close> has the other name) and
  \<^verbatim>\<open>connectionId\<close>, which is absent when no worker is connected to the session.
\<close>

record ActiveSession =
  activeId :: string
  connectionId :: "string option"

section \<open>\<^verbatim>\<open>getOptimalSession\<close>\<close>

text \<open>
  First loop: \<^verbatim>\<open>if (now - info.lastUsed > SESSION_TIMEOUT) sessionCache.delete(sessionId)\<close>.
  Deleting the entry a \<^verbatim>\<open>Map\<close> iterator stands on does not disturb the iteration.
\<close>

fun removeExpired :: "int \<Rightarrow> registry \<Rightarrow> registry" where
  "removeExpired now [] = []"
| "removeExpired now (info # rest) =
     (if now - lastUsed info > SESSION_TIMEOUT then removeExpired now rest
      else info # removeExpired now rest)"

text \<open>Second loop: \<^verbatim>\<open>if (!activeSessionIds.has(sessionId)) sessionCache.delete(sessionId)\<close>.\<close>

fun removeStale :: "string list \<Rightarrow> registry \<Rightarrow> registry" where
  "removeStale activeSessionIds [] = []"
| "removeStale activeSessionIds (info # rest) =
     (if sessionId info \<notin> set activeSessionIds then removeStale activeSessionIds rest
      else info # removeStale activeSessionIds rest)"

text \<open>
  Third loop, returning at the first entry that passes both tests:
  \<^verbatim>\<open>!info.inUse && activeSessionIds.has(sessionId)\<close>, then
  \<^verbatim>\<open>activeSession && !activeSession.connectionId\<close> for the first element of
  \<^verbatim>\<open>activeSessions\<close> with that id.
\<close>

fun findCached :: "ActiveSession list \<Rightarrow> string list \<Rightarrow> registry \<Rightarrow> SessionInfo option" where
  "findCached activeSessions activeSessionIds [] = None"
| "findCached activeSessions activeSessionIds (info # rest) =
     (if \<not> inUse info \<and> sessionId info \<in> set activeSessionIds then
        (case find (\<lambda>s. activeId s = sessionId info) activeSessions of
           Some activeSession \<Rightarrow>
             if \<not> truthy (connectionId activeSession) then Some info
             else findCached activeSessions activeSessionIds rest
         | None \<Rightarrow> findCached activeSessions activeSessionIds rest)
      else findCached activeSessions activeSessionIds rest)"

text \<open>
  The reconciliation pass of \<^verbatim>\<open>getOptimalSession\<close>: both pruning loops, given the array the
  Browser Service returned.
\<close>

definition reconcile :: "int \<Rightarrow> ActiveSession list \<Rightarrow> registry \<Rightarrow> registry" where
  "reconcile now activeSessions c =
     removeStale (map activeId activeSessions) (removeExpired now c)"

text \<open>
  \<^verbatim>\<open>getOptimalSession\<close>. \<open>now\<close> is the value of \<^verbatim>\<open>Date.now()\<close>; \<open>listing\<close> is what
  \<^verbatim>\<open>await puppeteer.sessions(endpoint)\<close> does: \<open>Inl\<close> when it throws, \<open>Inr\<close> the array.
  The result is the returned \<^verbatim>\<open>SessionInfo | null\<close> and the registry the call leaves.
\<close>

definition getOptimalSession ::
  "int \<Rightarrow> thrown + ActiveSession list \<Rightarrow> registry \<Rightarrow> SessionInfo option \<times> registry" where
  "getOptimalSession now listing c =
     (let c1 = removeExpired now c in
      case listing of
        Inl e \<Rightarrow> (None, c1)
      | Inr activeSessions \<Rightarrow>
          (let activeSessionIds = map activeId activeSessions;
               c2 = removeStale activeSessionIds c1
           in case findCached activeSessions activeSessionIds c2 of
                Some info \<Rightarrow>
                  (let info' = info\<lparr>inUse := True, lastUsed := now\<rparr>
                   in (Some info',
                       cache_modify (sessionId info) (\<lambda>i. i\<lparr>inUse := True, lastUsed := now\<rparr>) c2))
              | None \<Rightarrow>
                  (let availableSessions =
                         filter (\<lambda>v. \<not> truthy (connectionId v) \<and> \<not> cache_has (activeId v) c2)
                           activeSessions
                   in case availableSessions of
                        selectedSession # _ \<Rightarrow>
                          (let sessionInfo =
                                 \<lparr>sessionId = activeId selectedSession, lastUsed = now, inUse = True\<rparr>
                           in (Some sessionInfo, cache_set sessionInfo c2))
                      | [] \<Rightarrow> (None, c2))))"

section \<open>The cache key\<close>

text \<open>
  \<^verbatim>\<open>btoa\<close> is a built-in of the runtime, not code of the repository. It is written out
  here as the platform defines it (Base64 of RFC 4648 with padding, each character of
  the argument taken as one byte). \<^verbatim>\<open>btoa\<close> throws on a character above U+00FF; its
  argument here is the output of \<^verbatim>\<open>URL.prototype.toString\<close>, which is ASCII, and a
  \<open>char\<close> of HOL is a byte, so that case is outside the type.
\<close>

definition b64chars :: string where
  "b64chars = ''ABCDEFGHIJKLMNOPQRSTUVWXYZabcdefghijklmnopqrstuvwxyz0123456789+/''"

definition b64 :: "nat \<Rightarrow> char" where
  "b64 n = b64chars ! n"

fun btoa :: "string \<Rightarrow> string" where
  "btoa [] = []"
| "btoa [a] =
     (let x = (of_char a :: nat)
      in [b64 (x div 4), b64 ((x mod 4) * 16), CHR ''='', CHR ''=''])"
| "btoa [a, b] =
     (let x = (of_char a :: nat); y = (of_char b :: nat)
      in [b64 (x div 4), b64 ((x mod 4) * 16 + y div 16), b64 ((y mod 16) * 4), CHR ''=''])"
| "btoa (a # b # c # rest) =
     (let x = (of_char a :: nat); y = (of_char b :: nat); z = (of_char c :: nat)
      in [b64 (x div 4), b64 ((x mod 4) * 16 + y div 16),
          b64 ((y mod 16) * 4 + z div 64), b64 (z mod 64)] @ btoa rest)"

text \<open>The characters the regular expression \<^verbatim>\<open>/[^a-zA-Z0-9]/g\<close> leaves in place.\<close>

definition isAlnum :: "char \<Rightarrow> bool" where
  "isAlnum ch =
     (let n = (of_char ch :: nat)
      in (97 \<le> n \<and> n \<le> 122) \<or> (65 \<le> n \<and> n \<le> 90) \<or> (48 \<le> n \<and> n \<le> 57))"

text \<open>\<^verbatim>\<open>const cacheKey = `html:${btoa(reqUrl).replace(/[^a-zA-Z0-9]/g, '')}`\<close>\<close>

definition cacheKey :: "string \<Rightarrow> string" where
  "cacheKey reqUrl = ''html:'' @ filter isAlnum (btoa reqUrl)"

text \<open>
  The 6-bit groups \<^verbatim>\<open>btoa\<close> cuts a byte sequence into, before they are looked up in the
  alphabet and padded (used to reason about \<open>btoa\<close>, not called by the source).
\<close>

fun sextets :: "nat list \<Rightarrow> nat list" where
  "sextets [] = []"
| "sextets [x] = [x div 4, (x mod 4) * 16]"
| "sextets [x, y] = [x div 4, (x mod 4) * 16 + y div 16, (y mod 16) * 4]"
| "sextets (x # y # z # rest) =
     [x div 4, (x mod 4) * 16 + y div 16, (y mod 16) * 4 + z div 64, z mod 64] @ sextets rest"

section \<open>Strings\<close>

definition startsWith :: "string \<Rightarrow> string \<Rightarrow> bool" where
  "startsWith s p = (take (length p) s = p)"

definition endsWith :: "string \<Rightarrow> string \<Rightarrow> bool" where
  "endsWith s p = (length p \<le> length s \<and> drop (length s - length p) s = p)"

fun includesStr :: "string \<Rightarrow> string \<Rightarrow> bool" where
  "includesStr [] p = (p = [])"
| "includesStr (ch # s) p = (startsWith (ch # s) p \<or> includesStr s p)"

definition asciiLower :: "char \<Rightarrow> char" where
  "asciiLower ch =
     (let n = (of_char ch :: nat) in if 65 \<le> n \<and> n \<le> 90 then char_of (n + 32) else ch)"

section \<open>Requests, responses and the collaborators\<close>

text \<open>
  Of the request the handler reads \<^verbatim>\<open>request.method\<close> (here \<open>reqMethod\<close>) and, through
  \<^verbatim>\<open>new URL(request.url)\<close>, \<^verbatim>\<open>url.pathname\<close>.
\<close>

record Request =
  reqMethod :: string
  pathname :: string

datatype json = JBool bool | JString string

datatype body = NoBody | Text string | Json "(string \<times> json) list"

record Response =
  status :: nat
  headers :: "(string \<times> string) list"
  body :: body

text \<open>
  The handle \<^verbatim>\<open>puppeteer.connect\<close> or \<^verbatim>\<open>puppeteer.launch\<close> resolves to; the source
  reads one property of it, \<^verbatim>\<open>(browser as any).sessionId\<close>.
\<close>

datatype Browser = Browser (sessionIdProperty: "string option")

text \<open>
  One entry for each call the handler makes on the Content Store (\<^verbatim>\<open>env.HTML_CACHE\<close>)
  and on the Browser Service (\<^verbatim>\<open>puppeteer\<close>, the browser handle and its page), in the
  order of the calls.
\<close>

datatype call =
    KvGet string
  | KvPut string string nat
  | Sessions
  | Connect string
  | Launch
  | NewPage
  | SetUserAgent string
  | SetRequestInterception
  | Goto string
  | Content
  | PageClose
  | Disconnect

text \<open>
  What the environment does during one request: which bindings exist, what the clock
  reads, and for each awaited call whether it throws (\<open>Inl\<close>, or \<open>Some\<close> for a call
  whose value is not used) or what it resolves to.
  \<open>normalizeUrl\<close> stands for \<^verbatim>\<open>new URL(decodeURIComponent(targetUrl)).toString()\<close>, two
  built-ins of the runtime: \<open>None\<close> when either throws.
  \<open>gotoResult\<close> resolves to the navigation response, its HTTP status or \<^verbatim>\<open>null\<close>.
\<close>

record World =
  hasCache :: bool
  CUSTOM_USER_AGENT :: "string option"
  normalizeUrl :: "string \<Rightarrow> string option"
  kvGetThrows :: "thrown option"
  kvPutThrows :: "thrown option"
  now1 :: int
  now2 :: int
  timestamp :: string
  sessionsResult :: "thrown + ActiveSession list"
  connectResult :: "string \<Rightarrow> thrown + Browser"
  launchResult :: "thrown + Browser"
  newPageResult :: "thrown option"
  setUserAgentResult :: "thrown option"
  setRequestInterceptionResult :: "thrown option"
  gotoResult :: "thrown + nat option"
  contentResult :: "thrown + string"
  closeResult :: "thrown option"
  disconnectResult :: "thrown option"

text \<open>
  What outlives a request: the module-level \<^verbatim>\<open>sessionCache\<close>, the Content Store (each
  key with its payload and the \<^verbatim>\<open>expirationTtl\<close> it was put with; expiry is the
  store's own business), and the calls made so far.
\<close>

record State =
  sessionCache :: registry
  kv :: "string \<rightharpoonup> string \<times> nat"
  calls :: "call list"

definition record_call :: "call \<Rightarrow> State \<Rightarrow> State" where
  "record_call x s = s\<lparr>calls := calls s @ [x]\<rparr>"

text \<open>The local variables of \<^verbatim>\<open>fetch\<close> that its \<^verbatim>\<open>catch\<close> block reads.\<close>

record Locals =
  browser :: "Browser option"
  launched :: bool
  sessionInfo :: "SessionInfo option"

definition DEFAULT_USER_AGENT :: string where
  "DEFAULT_USER_AGENT = ''Mozilla/5.0 (Macintosh; Intel Mac OS X 10_15_7) AppleWebKit/537.36 (KHTML, like Gecko) Chrome/120.0.0.0 Safari/537.36''"

section \<open>The responses of \<^verbatim>\<open>fetch\<close>\<close>

definition preflightResponse :: Response where
  "preflightResponse =
     \<lparr>status = 200,
      headers = [(''access-control-allow-origin'', ''*''),
                 (''access-control-allow-methods'', ''GET, OPTIONS''),
                 (''access-control-allow-headers'', ''Content-Type'')],
      body = NoBody\<rparr>"

definition jsonHeaders :: "(string \<times> string) list" where
  "jsonHeaders = [(''content-type'', ''application/json''), (''access-control-allow-origin'', ''*'')]"

definition missingTargetResponse :: Response where
  "missingTargetResponse =
     \<lparr>status = 400, headers = jsonHeaders,
      body = Json [(''success'', JBool False),
                   (''error'', JString ''Missing target URL in path. Usage: /content/https://example.com'')]\<rparr>"

definition invalidUrlResponse :: Response where
  "invalidUrlResponse =
     \<lparr>status = 400, headers = jsonHeaders,
      body = Json [(''success'', JBool False), (''error'', JString ''Invalid URL format'')]\<rparr>"

definition cachedResponse :: "string \<Rightarrow> Response" where
  "cachedResponse cached =
     \<lparr>status = 200,
      headers = [(''content-type'', ''text/html;charset=UTF-8''),
                 (''access-control-allow-origin'', ''*''),
                 (''cache-control'', ''public, max-age=3600'')],
      body = Text cached\<rparr>"

definition htmlResponse :: "string \<Rightarrow> Response" where
  "htmlResponse htmlContent =
     \<lparr>status = 200,
      headers = [(''content-type'', ''text/html;charset=UTF-8''),
                 (''access-control-allow-origin'', ''*'')],
      body = Text htmlContent\<rparr>"

definition errorMessage :: "thrown \<Rightarrow> string" where
  "errorMessage error = (case error of JsError message \<Rightarrow> message | NonError \<Rightarrow> ''Unknown error'')"

definition faultResponse :: "World \<Rightarrow> thrown \<Rightarrow> string \<Rightarrow> Response" where
  "faultResponse W error reqUrl =
     \<lparr>status = 500, headers = jsonHeaders,
      body = Json [(''success'', JBool False),
                   (''error'', JString (errorMessage error)),
                   (''url'', JString reqUrl),
                   (''timestamp'', JString (timestamp W))]\<rparr>"

definition staticResponse :: Response where
  "staticResponse =
     \<lparr>status = 204,
      headers = [(''access-control-allow-origin'', ''*''), (''cache-control'', ''no-cache'')],
      body = NoBody\<rparr>"

definition notAllowedResponse :: "Request \<Rightarrow> Response" where
  "notAllowedResponse request =
     \<lparr>status = 405, headers = jsonHeaders,
      body = Json [(''success'', JBool False),
                   (''error'', JString ''Only GET requests to /content/{target_url} are supported''),
                   (''path'', JString (pathname request)),
                   (''method'', JString (reqMethod request))]\<rparr>"

definition isStaticResource :: "string \<Rightarrow> bool" where
  "isStaticResource path =
     ((\<exists>ext \<in> set [''css'', ''js'', ''png'', ''jpg'', ''jpeg'', ''gif'', ''svg'', ''ico'', ''woff'',
                     ''woff2'', ''ttf'', ''eot'', ''webp'', ''avif''].
          endsWith (map asciiLower path) (CHR ''.'' # ext))
      \<or> startsWith path ''/media/'' \<or> startsWith path ''/assets/''
      \<or> startsWith path ''/static/'' \<or> startsWith path ''/images/''
      \<or> startsWith path ''/css/'' \<or> startsWith path ''/js/''
      \<or> includesStr path ''favicon'')"

section \<open>The stages of \<^verbatim>\<open>fetch\<close>\<close>

text \<open>
  Cache lookup (\<^verbatim>\<open>if (env.HTML_CACHE) { try { ... } catch (e) { ... } }\<close>): the payload
  when the handler returns it, \<open>None\<close> when the handler goes on to render.
\<close>

definition cacheLookup :: "World \<Rightarrow> string \<Rightarrow> State \<Rightarrow> string option \<times> State" where
  "cacheLookup W key s =
     (if hasCache W then
        (let s1 = record_call (KvGet key) s in
         case kvGetThrows W of
           Some e \<Rightarrow> (None, s1)
         | None \<Rightarrow>
             (let cached = map_option fst (kv s key)
              in if truthy cached then (cached, s1) else (None, s1)))
      else (None, s))"

text \<open>
  From \<^verbatim>\<open>sessionInfo = await this.getOptimalSession(endpoint)\<close> to the end of the
  \<^verbatim>\<open>if (sessionInfo) ... else ...\<close> that connects or launches. The first component is the
  error that leaves the \<^verbatim>\<open>try\<close> block, if one does.
\<close>

definition acquire :: "World \<Rightarrow> State \<Rightarrow> thrown option \<times> Locals \<times> State" where
  "acquire W s =
     (case getOptimalSession (now1 W) (sessionsResult W) (sessionCache s) of
        (r, c1) \<Rightarrow>
          (let s1 = record_call Sessions (s\<lparr>sessionCache := c1\<rparr>) in
           case r of
             Some info \<Rightarrow>
               (let s2 = record_call (Connect (sessionId info)) s1 in
                case connectResult W (sessionId info) of
                  Inr b \<Rightarrow>
                    (None, \<lparr>browser = Some b, launched = False, sessionInfo = Some info\<rparr>, s2)
                | Inl connectError \<Rightarrow>
                    (let s3 = record_call Launch
                                (s2\<lparr>sessionCache := cache_delete (sessionId info) (sessionCache s2)\<rparr>)
                     in case launchResult W of
                          Inr b \<Rightarrow>
                            (None, \<lparr>browser = Some b, launched = True, sessionInfo = None\<rparr>, s3)
                        | Inl e \<Rightarrow>
                            (Some e, \<lparr>browser = None, launched = False, sessionInfo = None\<rparr>, s3)))
           | None \<Rightarrow>
               (let s2 = record_call Launch s1 in
                case launchResult W of
                  Inr b \<Rightarrow> (None, \<lparr>browser = Some b, launched = True, sessionInfo = None\<rparr>, s2)
                | Inl e \<Rightarrow> (Some e, \<lparr>browser = None, launched = False, sessionInfo = None\<rparr>, s2))))"

text \<open>
  From \<^verbatim>\<open>browser.newPage()\<close> to \<^verbatim>\<open>page.close()\<close>. The value \<^verbatim>\<open>page.goto\<close> resolves to
  is not bound to anything. The one-second \<^verbatim>\<open>setTimeout\<close> between \<^verbatim>\<open>goto\<close> and
  \<^verbatim>\<open>content\<close> has no effect on the state.
\<close>

definition renderPage :: "World \<Rightarrow> string \<Rightarrow> State \<Rightarrow> (thrown + string) \<times> State" where
  "renderPage W reqUrl s =
     (let s1 = record_call NewPage s in
      case newPageResult W of Some e \<Rightarrow> (Inl e, s1) | None \<Rightarrow>
     (let userAgent = (if truthy (CUSTOM_USER_AGENT W)
                       then (case CUSTOM_USER_AGENT W of Some ua \<Rightarrow> ua | None \<Rightarrow> DEFAULT_USER_AGENT)
                       else DEFAULT_USER_AGENT);
          s2 = record_call (SetUserAgent userAgent) s1 in
      case setUserAgentResult W of Some e \<Rightarrow> (Inl e, s2) | None \<Rightarrow>
     (let s3 = record_call SetRequestInterception s2 in
      case setRequestInterceptionResult W of Some e \<Rightarrow> (Inl e, s3) | None \<Rightarrow>
     (let s4 = record_call (Goto reqUrl) s3 in
      case gotoResult W of Inl e \<Rightarrow> (Inl e, s4) | Inr response \<Rightarrow>
     (let s5 = record_call Content s4 in
      case contentResult W of Inl e \<Rightarrow> (Inl e, s5) | Inr htmlContent \<Rightarrow>
     (let s6 = record_call PageClose s5 in
      case closeResult W of Some e \<Rightarrow> (Inl e, s6) | None \<Rightarrow> (Inr htmlContent, s6)))))))"

text \<open>\<^verbatim>\<open>if (launched) { ... browser.disconnect(); } else if (sessionInfo) { ... }\<close>\<close>

definition releaseSession :: "World \<Rightarrow> Locals \<Rightarrow> State \<Rightarrow> thrown option \<times> State" where
  "releaseSession W L s =
     (if launched L then
        (let newSessionId = (case browser L of Some b \<Rightarrow> sessionIdProperty b | None \<Rightarrow> None);
             s1 = (case newSessionId of
                     Some sid \<Rightarrow>
                       if truthy newSessionId
                       then s\<lparr>sessionCache :=
                                cache_set \<lparr>sessionId = sid, lastUsed = now2 W, inUse = False\<rparr>
                                  (sessionCache s)\<rparr>
                       else s
                   | None \<Rightarrow> s)
         in (disconnectResult W, record_call Disconnect s1))
      else
        (case sessionInfo L of
           Some info \<Rightarrow>
             (None, s\<lparr>sessionCache :=
                        cache_modify (sessionId info) (\<lambda>i. i\<lparr>inUse := False, lastUsed := now2 W\<rparr>)
                          (sessionCache s)\<rparr>)
         | None \<Rightarrow> (None, s)))"

text \<open>
  \<^verbatim>\<open>if (env.HTML_CACHE) { try { await env.HTML_CACHE.put(cacheKey, htmlContent,
  { expirationTtl: 3600 }) } catch (e) { ... } }\<close>. A \<^verbatim>\<open>put\<close> that throws is taken to have
  stored nothing.
\<close>

definition cacheStore :: "World \<Rightarrow> string \<Rightarrow> string \<Rightarrow> State \<Rightarrow> State" where
  "cacheStore W key htmlContent s =
     (if hasCache W then
        (let s1 = record_call (KvPut key htmlContent 3600) s in
         case kvPutThrows W of
           Some e \<Rightarrow> s1
         | None \<Rightarrow> s1\<lparr>kv := (kv s1)(key \<mapsto> (htmlContent, 3600))\<rparr>)
      else s)"

text \<open>The body of the \<^verbatim>\<open>try\<close> block, with the local variables as they stand when it ends.\<close>

definition tryBlock ::
  "World \<Rightarrow> string \<Rightarrow> string \<Rightarrow> State \<Rightarrow> (thrown + string) \<times> Locals \<times> State" where
  "tryBlock W reqUrl key s =
     (case acquire W s of
        (Some e, L, s1) \<Rightarrow> (Inl e, L, s1)
      | (None, L, s1) \<Rightarrow>
          (case renderPage W reqUrl s1 of
             (Inl e, s2) \<Rightarrow> (Inl e, L, s2)
           | (Inr htmlContent, s2) \<Rightarrow>
               (case releaseSession W L s2 of
                  (Some e, s3) \<Rightarrow> (Inl e, L, s3)
                | (None, s3) \<Rightarrow> (Inr htmlContent, L, cacheStore W key htmlContent s3))))"

text \<open>
  \<^verbatim>\<open>error instanceof Error && error.message.includes('Cannot read properties of null')\<close>
\<close>

definition isNullReadError :: "thrown \<Rightarrow> bool" where
  "isNullReadError error =
     (case error of
        JsError message \<Rightarrow> includesStr message ''Cannot read properties of null''
      | NonError \<Rightarrow> False)"

text \<open>
  The cleanup of the \<^verbatim>\<open>catch\<close> block. An error thrown by its \<^verbatim>\<open>browser.disconnect()\<close>
  is caught and logged there.
\<close>

definition cleanup :: "thrown \<Rightarrow> Locals \<Rightarrow> State \<Rightarrow> State" where
  "cleanup error L s =
     (case browser L of
        None \<Rightarrow> s
      | Some b \<Rightarrow>
          (let s1 = (case sessionInfo L of
                       Some info \<Rightarrow>
                         if isNullReadError error
                         then s\<lparr>sessionCache := cache_delete (sessionId info) (sessionCache s)\<rparr>
                         else s\<lparr>sessionCache :=
                                  cache_modify (sessionId info) (\<lambda>i. i\<lparr>inUse := False\<rparr>)
                                    (sessionCache s)\<rparr>
                     | None \<Rightarrow> s)
           in if launched L then record_call Disconnect s1 else s1))"

text \<open>The \<^verbatim>\<open>try\<close>/\<^verbatim>\<open>catch\<close> statement that renders the page and answers.\<close>

definition renderRequest :: "World \<Rightarrow> string \<Rightarrow> string \<Rightarrow> State \<Rightarrow> Response \<times> State" where
  "renderRequest W reqUrl key s =
     (case tryBlock W reqUrl key s of
        (Inr htmlContent, L, s') \<Rightarrow> (htmlResponse htmlContent, s')
      | (Inl error, L, s') \<Rightarrow> (faultResponse W error reqUrl, cleanup error L s'))"

section \<open>\<^verbatim>\<open>fetch\<close>\<close>

definition fetch :: "World \<Rightarrow> Request \<Rightarrow> State \<Rightarrow> Response \<times> State" where
  "fetch W request s =
     (if reqMethod request = ''OPTIONS'' then (preflightResponse, s)
      else if reqMethod request = ''GET'' \<and> startsWith (pathname request) ''/content/'' then
        (let targetUrl = drop (length ''/content/'') (pathname request) in
         if targetUrl = [] then (missingTargetResponse, s)
         else
           (case normalizeUrl W targetUrl of
              None \<Rightarrow> (invalidUrlResponse, s)
            | Some reqUrl \<Rightarrow>
                (case cacheLookup W (cacheKey reqUrl) s of
                   (Some cached, s1) \<Rightarrow> (cachedResponse cached, s1)
                 | (None, s1) \<Rightarrow> renderRequest W reqUrl (cacheKey reqUrl) s1)))
      else if reqMethod request = ''GET'' \<and> isStaticResource (pathname request) then (staticResponse, s)
      else (notAllowedResponse request, s))"

section \<open>The status test of the \<^verbatim>\<open>?url=\<close> handler\<close>

text \<open>
  \<^verbatim>\<open>src/index.ts\<close> holds a second \<^verbatim>\<open>fetch\<close> handler, which reads the target from
  \<^verbatim>\<open>?url=\<close> instead of the path. After \<^verbatim>\<open>const response = await page.goto(...)\<close> it has
  \<^verbatim>\<open>if (!response) throw new Error('Failed to load page: No response received')\<close> and
  \<^verbatim>\<open>if (status >= 400) throw new Error(`Failed to load page: ${status}`)\<close>.
  \<open>showNat\<close> is the decimal text of a number, as the template literal renders it.
\<close>

function showNat :: "nat \<Rightarrow> string" where
  "showNat n = (if n < 10 then [''0123456789'' ! n]
                else showNat (n div 10) @ [''0123456789'' ! (n mod 10)])"
  by pat_completeness auto
termination
  by (relation "measure id") auto

declare showNat.simps [simp del]

definition legacyStatusCheck :: "nat option \<Rightarrow> thrown option" where
  "legacyStatusCheck response =
     (case response of
        None \<Rightarrow> Some (JsError ''Failed to load page: No response received'')
      | Some st \<Rightarrow>
          if st \<ge> 400 then Some (JsError (''Failed to load page: '' @ showNat st))
          else None)"

section \<open>Classes of calls\<close>

definition isKvPut :: "call \<Rightarrow> bool" where
  "isKvPut x = (case x of KvPut k v t \<Rightarrow> True | _ \<Rightarrow> False)"

definition isConnect :: "call \<Rightarrow> bool" where
  "isConnect x = (case x of Connect k \<Rightarrow> True | _ \<Rightarrow> False)"

section \<open>Example requests and environments\<close>

text \<open>
  An environment in which every call succeeds: the Content Store is bound, the Browser
  Service lists no session, the launched browser reports the session id \<^verbatim>\<open>new\<close>, and the
  target page answers with status 200.
\<close>

definition exampleWorld :: World where
  "exampleWorld =
     \<lparr>hasCache = True,
      CUSTOM_USER_AGENT = None,
      normalizeUrl = (\<lambda>t. if t = ''https://example.com'' then Some ''https://example.com/'' else None),
      kvGetThrows = None,
      kvPutThrows = None,
      now1 = 1000,
      now2 = 2000,
      timestamp = ''2025-07-05T00:00:00.000Z'',
      sessionsResult = Inr [],
      connectResult = (\<lambda>k. Inr (Browser (Some k))),
      launchResult = Inr (Browser (Some ''new'')),
      newPageResult = None,
      setUserAgentResult = None,
      setRequestInterceptionResult = None,
      gotoResult = Inr (Some 200),
      contentResult = Inr ''<html>rendered</html>'',
      closeResult = None,
      disconnectResult = None\<rparr>"

definition exampleRequest :: Request where
  "exampleRequest = \<lparr>reqMethod = ''GET'', pathname = ''/content/https://example.com''\<rparr>"

definition malformedRequest :: Request where
  "malformedRequest = \<lparr>reqMethod = ''GET'', pathname = ''/content/not-a-url''\<rparr>"

definition emptyState :: State where
  "emptyState = \<lparr>sessionCache = [], kv = Map.empty, calls = []\<rparr>"

text \<open>The target page answers with status 404 and an error page.\<close>

definition notFoundWorld :: World where
  "notFoundWorld =
     exampleWorld\<lparr>gotoResult := Inr (Some 404), contentResult := Inr ''<html>404 Not Found</html>''\<rparr>"

text \<open>The navigation times out.\<close>

definition timeoutWorld :: World where
  "timeoutWorld =
     exampleWorld\<lparr>gotoResult := Inl (JsError ''Navigation timeout of 15000 ms exceeded'')\<rparr>"

text \<open>
  The registry tracks one free session, \<^verbatim>\<open>s1\<close>; \<open>listing1\<close> is a listing of the Browser
  Service that has \<^verbatim>\<open>s1\<close> with no worker connected.
\<close>

definition trackedState :: State where
  "trackedState =
     emptyState\<lparr>sessionCache := [\<lparr>sessionId = ''s1'', lastUsed = 500, inUse = False\<rparr>]\<rparr>"

definition listing1 :: "ActiveSession list" where
  "listing1 = [\<lparr>activeId = ''s1'', connectionId = None\<rparr>]"

text \<open>The Content Store holds a page for \<^verbatim>\<open>https://example.com/\<close>.\<close>

definition cachedState :: State where
  "cachedState =
     emptyState\<lparr>kv := [cacheKey ''https://example.com/'' \<mapsto> (''<html>cached</html>'', 3600)]\<rparr>"

text \<open>The Content Store holds an empty payload under the key of \<^verbatim>\<open>https://example.com/\<close>.\<close>

definition emptyEntryState :: State where
  "emptyEntryState = emptyState\<lparr>kv := [cacheKey ''https://example.com/'' \<mapsto> ([], 3600)]\<rparr>"

text \<open>
  Two targets that are already in normalized form, and an environment in which the page
  that is rendered is the page of the first.
\<close>

definition tildeRequest :: Request where
  "tildeRequest = \<lparr>reqMethod = ''GET'', pathname = ''/content/https://example.com/ab/~ad''\<rparr>"

definition upperRequest :: Request where
  "upperRequest = \<lparr>reqMethod = ''GET'', pathname = ''/content/https://example.com/ab/XY''\<rparr>"

definition collisionWorld :: World where
  "collisionWorld =
     exampleWorld\<lparr>normalizeUrl :=
                    (\<lambda>t. if t = ''https://example.com/ab/~ad'' \<or> t = ''https://example.com/ab/XY''
                         then Some t else None),
                  contentResult := Inr ''<html>page of /ab/~ad</html>''\<rparr>"

section \<open>Facts about the registry operations\<close>

lemma removeExpired_filter:
  "removeExpired now c = filter (\<lambda>i. \<not> now - lastUsed i > SESSION_TIMEOUT) c"
  by (induction c) auto

lemma removeStale_filter:
  "removeStale ids c = filter (\<lambda>i. sessionId i \<in> set ids) c"
  by (induction c) auto

lemma set_cache_set: "set (cache_set v c) \<subseteq> insert v (set c)"
  by (induction c) auto

lemma sessionId_cache_modify:
  "(\<And>i. sessionId (f i) = sessionId i) \<Longrightarrow>
   sessionId ` set (cache_modify k f c) = sessionId ` set c"
  by (induction c) (auto simp: cache_modify_def)

lemma findCached_None_or_mem:
  "findCached act ids c = Some info \<Longrightarrow> info \<in> set c"
  by (induction c) (auto split: if_splits option.splits)

lemma ids_cache_set:
  "sessionId ` set (cache_set v c) \<subseteq> insert (sessionId v) (sessionId ` set c)"
  by (induction c) auto

lemma reconcile_active:
  "sessionId ` set (reconcile now act c) \<subseteq> activeId ` set act"
  by (auto simp: reconcile_def removeStale_filter)

lemma getOptimalSession_active:
  "sessionId ` set (snd (getOptimalSession now (Inr activeSessions) c))
     \<subseteq> activeId ` set activeSessions"
proof -
  let ?c2 = "reconcile now activeSessions c"
  let ?avail = "filter (\<lambda>v. \<not> truthy (connectionId v) \<and> \<not> cache_has (activeId v) ?c2)
                  activeSessions"
  have c2: "sessionId ` set ?c2 \<subseteq> activeId ` set activeSessions"
    by (rule reconcile_active)
  show ?thesis
  proof (cases "findCached activeSessions (map activeId activeSessions) ?c2")
    case (Some info)
    then have "snd (getOptimalSession now (Inr activeSessions) c)
        = cache_modify (sessionId info) (\<lambda>i. i\<lparr>inUse := True, lastUsed := now\<rparr>) ?c2"
      by (simp add: getOptimalSession_def reconcile_def Let_def)
    then show ?thesis using c2 by (simp add: sessionId_cache_modify)
  next
    case None
    show ?thesis
    proof (cases ?avail)
      case Nil
      with None have "snd (getOptimalSession now (Inr activeSessions) c) = ?c2"
        by (simp add: getOptimalSession_def reconcile_def Let_def)
      then show ?thesis using c2 by simp
    next
      case (Cons sel rest)
      then have "sel \<in> set ?avail" by simp
      then have sel: "activeId sel \<in> activeId ` set activeSessions" by simp
      from None Cons have eq: "snd (getOptimalSession now (Inr activeSessions) c)
          = cache_set \<lparr>sessionId = activeId sel, lastUsed = now, inUse = True\<rparr> ?c2"
        by (simp add: getOptimalSession_def reconcile_def Let_def)
      have sub: "sessionId ` set (cache_set \<lparr>sessionId = activeId sel, lastUsed = now, inUse = True\<rparr> ?c2)
          \<subseteq> insert (activeId sel) (sessionId ` set ?c2)"
        using ids_cache_set[of "\<lparr>sessionId = activeId sel, lastUsed = now, inUse = True\<rparr>" ?c2]
        by simp
      have "insert (activeId sel) (sessionId ` set ?c2) \<subseteq> activeId ` set activeSessions"
        using c2 sel by simp
      with sub show ?thesis unfolding eq by (rule order_trans)
    qed
  qed
qed

lemma distinct_b64chars: "distinct b64chars"
  by (simp add: b64chars_def)

lemma length_b64chars: "length b64chars = 64"
  by (simp add: b64chars_def)

lemma b64_inj: "i < 64 \<Longrightarrow> j < 64 \<Longrightarrow> b64 i = b64 j \<Longrightarrow> i = j"
  using distinct_b64chars length_b64chars by (simp add: b64_def nth_eq_iff_index_eq)

lemma b64chars_class: "\<forall>ch \<in> set b64chars. ch \<noteq> CHR ''='' \<and> (isAlnum ch \<or> ch = CHR ''+'' \<or> ch = CHR ''/'')"
  by (simp add: b64chars_def isAlnum_def)

lemma b64_mem: "i < 64 \<Longrightarrow> b64 i \<in> set b64chars"
  by (simp add: b64_def length_b64chars)

lemma not_alnum_pad: "\<not> isAlnum CHR ''=''"
  by (simp add: isAlnum_def)

lemma hi_lo:
  assumes "p < m" "q < k"
  shows "p * k + q < m * (k::nat)"
proof -
  have "p * k + q < p * k + k" using assms(2) by simp
  also have "\<dots> = Suc p * k" by simp
  also have "\<dots> \<le> m * k" using assms(1) by (intro mult_le_mono1) simp
  finally show ?thesis .
qed

lemma sextet_bounds:
  "x < 256 \<Longrightarrow> x div 4 < (64::nat)" "(x mod 4) * 16 < (64::nat)"
  "y < 256 \<Longrightarrow> (x mod 4) * 16 + y div 16 < (64::nat)"
  "(y mod 16) * 4 < (64::nat)"
  "z < 256 \<Longrightarrow> (y mod 16) * 4 + z div 64 < (64::nat)"
  "z mod 64 < (64::nat)"
proof -
  show "x < 256 \<Longrightarrow> x div 4 < (64::nat)" by simp
  show "(x mod 4) * 16 < (64::nat)" by simp
  show "(y mod 16) * 4 < (64::nat)" by simp
  show "z mod 64 < (64::nat)" by simp
  show "y < 256 \<Longrightarrow> (x mod 4) * 16 + y div 16 < (64::nat)"
    using hi_lo[of "x mod 4" 4 "y div 16" 16] by simp
  show "z < 256 \<Longrightarrow> (y mod 16) * 4 + z div 64 < (64::nat)"
    using hi_lo[of "y mod 16" 16 "z div 64" 4] by simp
qed

lemma sextets_bound: "\<forall>x \<in> set xs. x < 256 \<Longrightarrow> \<forall>n \<in> set (sextets xs). n < 64"
  by (induction xs rule: sextets.induct) (simp_all add: sextet_bounds)

lemma split_digits:
  assumes "p * k + q = p' * k + q'" "q < k" "q' < k"
  shows "p = p' \<and> q = (q'::nat)"
proof -
  have "(p * k + q) div k = p" "(p * k + q) mod k = q" using assms(2) by simp_all
  moreover have "(p' * k + q') div k = p'" "(p' * k + q') mod k = q'" using assms(3) by simp_all
  ultimately show ?thesis using assms(1) by simp
qed

lemma join_div_mod: "x div k = a div k \<Longrightarrow> x mod k = a mod k \<Longrightarrow> x = (a::nat)"
  by (metis div_mult_mod_eq)

lemma group1:
  assumes "x div 4 = a div 4" "(x mod 4) * 16 = (a mod 4) * 16" shows "x = (a::nat)"
proof -
  from assms(2) have "x mod 4 = a mod 4" by simp
  with assms(1) show ?thesis by (rule join_div_mod)
qed

lemma group2:
  assumes "y < 256" "b < 256" "x div 4 = a div 4"
    "(x mod 4) * 16 + y div 16 = (a mod 4) * 16 + b div 16" "(y mod 16) * 4 = (b mod 16) * 4"
  shows "x = (a::nat) \<and> y = b"
proof -
  have "y div 16 < 16" "b div 16 < 16" using assms(1,2) by simp_all
  with assms(4) have "x mod 4 = a mod 4 \<and> y div 16 = b div 16" by (rule split_digits)
  moreover from assms(5) have "y mod 16 = b mod 16" by simp
  ultimately show ?thesis using assms(3) join_div_mod by blast
qed

lemma group3:
  assumes "y < 256" "b < 256" "z < 256" "c < 256" "x div 4 = a div 4"
    "(x mod 4) * 16 + y div 16 = (a mod 4) * 16 + b div 16"
    "(y mod 16) * 4 + z div 64 = (b mod 16) * 4 + c div 64" "z mod 64 = c mod 64"
  shows "x = (a::nat) \<and> y = b \<and> z = c"
proof -
  have "y div 16 < 16" "b div 16 < 16" using assms(1,2) by simp_all
  with assms(6) have 1: "x mod 4 = a mod 4 \<and> y div 16 = b div 16" by (rule split_digits)
  have "z div 64 < 4" "c div 64 < 4" using assms(3,4) by simp_all
  with assms(7) have 2: "y mod 16 = b mod 16 \<and> z div 64 = c div 64" by (rule split_digits)
  from 1 2 assms(5,8) show ?thesis using join_div_mod by blast
qed

lemma sextets_inj:
  "\<forall>x \<in> set xs. x < 256 \<Longrightarrow> \<forall>y \<in> set ys. y < 256 \<Longrightarrow> sextets xs = sextets ys \<Longrightarrow> xs = ys"
proof (induction xs arbitrary: ys rule: sextets.induct)
  case 1
  then show ?case by (cases ys rule: sextets.cases) simp_all
next
  case (2 x)
  show ?case
  proof (cases ys rule: sextets.cases)
    case (2 a)
    with "2.prems" show ?thesis using group1[of x a] by simp
  qed (use "2.prems" in simp_all)
next
  case (3 x y)
  show ?case
  proof (cases ys rule: sextets.cases)
    case (3 a b)
    with "3.prems" show ?thesis using group2[of y b x a] by simp
  qed (use "3.prems" in simp_all)
next
  case (4 x y z rest)
  show ?case
  proof (cases ys rule: sextets.cases)
    case (4 a b c rest')
    with "4.prems" have g: "x = a \<and> y = b \<and> z = c" and r: "sextets rest = sextets rest'"
      using group3[of y b z c x a] by simp_all
    from "4.prems" 4 have "rest = rest'" using "4.IH"[OF _ _ r] by simp
    with g 4 show ?thesis by simp
  qed (use "4.prems" in simp_all)
qed

lemma b64_not_pad: "i < 64 \<Longrightarrow> b64 i \<noteq> CHR ''=''"
  using b64chars_class b64_mem by blast

lemma b64_alnum: "i < 64 \<Longrightarrow> b64 i \<noteq> CHR ''+'' \<Longrightarrow> b64 i \<noteq> CHR ''/'' \<Longrightarrow> isAlnum (b64 i)"
  using b64chars_class b64_mem by blast

lemma btoa_sextets:
  "\<exists>p. btoa u = map b64 (sextets (map of_char u)) @ replicate p CHR ''=''"
proof (induction u rule: btoa.induct)
  case 1
  then show ?case by simp
next
  case (2 a)
  have "btoa [a] = map b64 (sextets (map of_char [a])) @ replicate 2 CHR ''=''"
    by (simp add: Let_def numeral_2_eq_2)
  then show ?case by blast
next
  case (3 a b)
  have "btoa [a, b] = map b64 (sextets (map of_char [a, b])) @ replicate 1 CHR ''=''"
    by (simp add: Let_def)
  then show ?case by blast
next
  case (4 a b c rest)
  then obtain p where "btoa rest = map b64 (sextets (map of_char rest)) @ replicate p CHR ''=''"
    by blast
  then have "btoa (a # b # c # rest)
      = map b64 (sextets (map of_char (a # b # c # rest))) @ replicate p CHR ''=''"
    by (simp add: Let_def)
  then show ?case by blast
qed

lemma bytes_of_string: "\<forall>x \<in> set (map of_char (u :: string)). x < (256::nat)"
  by simp

lemma key_body:
  assumes "CHR ''+'' \<notin> set (btoa u)" "CHR ''/'' \<notin> set (btoa u)"
  shows "filter isAlnum (btoa u) = map b64 (sextets (map of_char u))"
proof -
  let ?sx = "sextets (map of_char u)"
  obtain p where p: "btoa u = map b64 ?sx @ replicate p CHR ''=''"
    using btoa_sextets by blast
  have lt: "\<forall>n \<in> set ?sx. n < 64"
    using sextets_bound[OF bytes_of_string] .
  have "\<forall>n \<in> set ?sx. isAlnum (b64 n)"
  proof
    fix n assume n: "n \<in> set ?sx"
    then have "b64 n \<in> set (btoa u)" using p by simp
    with assms have "b64 n \<noteq> CHR ''+''" "b64 n \<noteq> CHR ''/''" by auto
    with lt n show "isAlnum (b64 n)" using b64_alnum by blast
  qed
  then have "filter isAlnum (map b64 ?sx) = map b64 ?sx"
    by (simp add: filter_map o_def)
  moreover have "filter isAlnum (replicate p CHR ''='') = []"
    by (simp add: not_alnum_pad)
  ultimately show ?thesis using p by simp
qed

section \<open>Reconciliation\<close>

text \<open>
  C4. Whatever the registry held and whatever array the Browser Service returned, the
  registry that the reconciliation pass of \<^verbatim>\<open>getOptimalSession\<close> leaves (the one its
  allocation steps then read) has no entry whose \<open>sessionId\<close> is missing from that array;
  nor has the registry that \<^verbatim>\<open>getOptimalSession\<close> leaves when it returns.
\<close>

theorem reconciliation_removes_stale:
  "sessionId ` set (reconcile now activeSessions c) \<subseteq> activeId ` set activeSessions
   \<and> sessionId ` set (snd (getOptimalSession now (Inr activeSessions) c))
        \<subseteq> activeId ` set activeSessions"
  using reconcile_active getOptimalSession_active by blast

theorem reconciliation_removes_stale_witness:
  "reconcile 1000 [\<lparr>activeId = ''s1'', connectionId = None\<rparr>]
     [\<lparr>sessionId = ''s1'', lastUsed = 0, inUse = True\<rparr>,
      \<lparr>sessionId = ''s2'', lastUsed = 0, inUse = False\<rparr>]
     = [\<lparr>sessionId = ''s1'', lastUsed = 0, inUse = True\<rparr>]
   \<and> sessionId ` set (snd (getOptimalSession 1000 (Inr [\<lparr>activeId = ''s1'', connectionId = None\<rparr>])
     [\<lparr>sessionId = ''s1'', lastUsed = 0, inUse = True\<rparr>,
      \<lparr>sessionId = ''s2'', lastUsed = 0, inUse = False\<rparr>])) \<subseteq> {''s1''}"
proof -
  have "reconcile 1000 [\<lparr>activeId = ''s1'', connectionId = None\<rparr>]
     [\<lparr>sessionId = ''s1'', lastUsed = 0, inUse = True\<rparr>,
      \<lparr>sessionId = ''s2'', lastUsed = 0, inUse = False\<rparr>]
     = [\<lparr>sessionId = ''s1'', lastUsed = 0, inUse = True\<rparr>]"
    by (simp add: reconcile_def SESSION_TIMEOUT_def)
  moreover have "activeId ` set [\<lparr>activeId = ''s1'', connectionId = None\<rparr>] = {''s1''}"
    by simp
  ultimately show ?thesis
    using reconciliation_removes_stale[of 1000 "[\<lparr>activeId = ''s1'', connectionId = None\<rparr>]"
     "[\<lparr>sessionId = ''s1'', lastUsed = 0, inUse = True\<rparr>,
      \<lparr>sessionId = ''s2'', lastUsed = 0, inUse = False\<rparr>]"]
    by (simp only:)
qed

section \<open>The cache key\<close>

text \<open>
  The Base64 text of \<^verbatim>\<open>https://example.com/ab/~ad\<close> is \<^verbatim>\<open>...hYi9+YWQ=\<close>, that of
  \<^verbatim>\<open>https://example.com/ab/XY\<close> is \<^verbatim>\<open>...hYi9YWQ==\<close>, and deleting \<^verbatim>\<open>+\<close> and \<^verbatim>\<open>=\<close>
  leaves the same key for both.
\<close>

lemma cacheKey_example_collision:
  "cacheKey ''https://example.com/ab/XY'' = cacheKey ''https://example.com/ab/~ad''"
  by (simp add: cacheKey_def b64_def b64chars_def isAlnum_def)

text \<open>
  Where the Base64 text of neither URL contains \<^verbatim>\<open>+\<close> or \<^verbatim>\<open>/\<close>, the two characters of
  the alphabet that the replacement deletes, the key still tells the URLs apart.
\<close>

lemma cacheKey_injective_without_plus_slash:
  assumes "CHR ''+'' \<notin> set (btoa u1)" "CHR ''/'' \<notin> set (btoa u1)"
      and "CHR ''+'' \<notin> set (btoa u2)" "CHR ''/'' \<notin> set (btoa u2)"
      and "u1 \<noteq> u2"
  shows "cacheKey u1 \<noteq> cacheKey u2"
proof
  assume eq: "cacheKey u1 = cacheKey u2"
  let ?s1 = "sextets (map of_char u1)" and ?s2 = "sextets (map of_char u2)"
  have "map b64 ?s1 = map b64 ?s2"
    using assms(1-4) eq key_body[of u1] key_body[of u2] by (simp add: cacheKey_def)
  moreover have "inj_on b64 (set ?s1 \<union> set ?s2)"
    using sextets_bound[OF bytes_of_string, of u1] sextets_bound[OF bytes_of_string, of u2] b64_inj
    by (auto simp: inj_on_def)
  ultimately have "?s1 = ?s2" by (rule map_inj_on)
  then have "map of_char u1 = (map of_char u2 :: nat list)"
    using sextets_inj[OF bytes_of_string bytes_of_string] by blast
  then have "u1 = u2"
    using inj_of_char[where 'a = nat] by (simp add: inj_map_eq_map)
  with assms(5) show False by simp
qed

section \<open>Allocation of an existing session\<close>

lemma findCached_Some:
  "findCached act ids c = Some info \<Longrightarrow>
     info \<in> set c \<and> \<not> inUse info \<and> sessionId info \<in> set ids
     \<and> (\<exists>a. find (\<lambda>s. activeId s = sessionId info) act = Some a \<and> \<not> truthy (connectionId a))"
  by (induction c) (auto split: if_splits option.splits)

lemma findCached_None:
  "findCached act ids c = None \<Longrightarrow> i \<in> set c \<Longrightarrow> \<not> inUse i \<Longrightarrow> sessionId i \<in> set ids \<Longrightarrow>
     find (\<lambda>s. activeId s = sessionId i) act = Some a \<Longrightarrow> truthy (connectionId a)"
  by (induction c) (auto split: if_splits option.splits)

lemma find_SomeD: "find P xs = Some a \<Longrightarrow> a \<in> set xs \<and> P a"
  by (induction xs) (auto split: if_splits)

lemma cache_get_modify:
  assumes "distinct (map sessionId c)" "i \<in> set c" "\<And>j. sessionId (f j) = sessionId j"
  shows "cache_get (sessionId i) (cache_modify (sessionId i) f c) = Some (f i)"
  using assms(1,2)
proof (induction c)
  case Nil
  then show ?case by simp
next
  case (Cons j c)
  show ?case
  proof (cases "sessionId j = sessionId i")
    case True
    with Cons.prems have "j = i" by (auto simp: image_iff)
    then show ?thesis by (simp add: cache_get_def cache_modify_def assms(3))
  next
    case False
    with Cons.prems have "i \<in> set c" "distinct (map sessionId c)" by auto
    with Cons.IH have "cache_get (sessionId i) (cache_modify (sessionId i) f c) = Some (f i)" by simp
    with False show ?thesis by (simp add: cache_get_def cache_modify_def assms(3))
  qed
qed

lemma cache_get_set: "cache_get (sessionId v) (cache_set v c) = Some v"
  by (induction c) (auto simp: cache_get_def)

lemma cache_has_iff: "cache_has k c \<longleftrightarrow> k \<in> sessionId ` set c"
  by (induction c) (auto simp: cache_has_def cache_get_def)

lemma distinct_reconcile: "distinct (map sessionId c) \<Longrightarrow> distinct (map sessionId (reconcile now act c))"
  by (simp add: reconcile_def removeStale_filter removeExpired_filter distinct_map_filter)

lemma same_id_same_entry:
  assumes "distinct (map sessionId c)" "i \<in> set c" "j \<in> set c" "sessionId i = sessionId j"
  shows "i = j"
proof -
  from assms(1) have "inj_on sessionId (set c)" by (simp add: distinct_map)
  from this assms(4,2,3) show ?thesis by (rule inj_onD)
qed

lemma getOptimalSession_Some_facts:
  assumes g: "getOptimalSession now (Inr activeSessions) c = (Some info, c')"
      and d: "distinct (map sessionId c)"
  shows "(\<exists>a \<in> set activeSessions. activeId a = sessionId info \<and> \<not> truthy (connectionId a))
       \<and> (\<forall>i \<in> set (reconcile now activeSessions c). sessionId i = sessionId info \<longrightarrow> \<not> inUse i)
       \<and> cache_get (sessionId info) c' = Some info \<and> inUse info \<and> lastUsed info = now
       \<and> ((\<exists>i \<in> set (reconcile now activeSessions c). \<not> inUse i \<and>
              (\<exists>a. find (\<lambda>s. activeId s = sessionId i) activeSessions = Some a
                    \<and> \<not> truthy (connectionId a)))
            \<longrightarrow> sessionId info \<in> sessionId ` set (reconcile now activeSessions c))"
proof -
  let ?c2 = "reconcile now activeSessions c"
  let ?ids = "map activeId activeSessions"
  let ?upd = "\<lambda>i. i\<lparr>inUse := True, lastUsed := now\<rparr>"
  have d2: "distinct (map sessionId ?c2)" using d by (rule distinct_reconcile)
  have act: "sessionId ` set ?c2 \<subseteq> set ?ids"
    using reconcile_active[of now activeSessions c] by simp
  show ?thesis
  proof (cases "findCached activeSessions ?ids ?c2")
    case (Some i0)
    with g have info: "info = ?upd i0" and c': "c' = cache_modify (sessionId i0) ?upd ?c2"
      by (simp_all add: getOptimalSession_def reconcile_def Let_def)
    from Some have i0: "i0 \<in> set ?c2" "\<not> inUse i0"
      and fa: "\<exists>a. find (\<lambda>s. activeId s = sessionId i0) activeSessions = Some a \<and> \<not> truthy (connectionId a)"
      using findCached_Some by blast+
    have id: "sessionId info = sessionId i0" using info by simp
    from fa obtain a where a: "find (\<lambda>s. activeId s = sessionId i0) activeSessions = Some a"
      "\<not> truthy (connectionId a)" by blast
    from find_SomeD[OF a(1)] a(2) id
    have 1: "\<exists>a \<in> set activeSessions. activeId a = sessionId info \<and> \<not> truthy (connectionId a)"
      by (intro bexI[of _ a]) simp_all
    have 2: "\<forall>i \<in> set ?c2. sessionId i = sessionId info \<longrightarrow> \<not> inUse i"
    proof (intro ballI impI)
      fix i assume "i \<in> set ?c2" "sessionId i = sessionId info"
      then have "i = i0" using same_id_same_entry[OF d2 _ i0(1)] id by simp
      with i0(2) show "\<not> inUse i" by simp
    qed
    have "cache_get (sessionId i0) (cache_modify (sessionId i0) ?upd ?c2) = Some (?upd i0)"
      using d2 i0(1) by (rule cache_get_modify) simp
    then have 3: "cache_get (sessionId info) c' = Some info" using info c' id by simp
    have 4: "sessionId info \<in> sessionId ` set ?c2" using i0(1) id by auto
    have 5: "inUse info \<and> lastUsed info = now" using info by simp
    from 1 2 3 4 5 show ?thesis by blast
  next
    case None
    let ?avail = "filter (\<lambda>v. \<not> truthy (connectionId v) \<and> \<not> cache_has (activeId v) ?c2) activeSessions"
    from None g obtain sel rest where av: "?avail = sel # rest"
      by (cases ?avail) (simp_all add: getOptimalSession_def reconcile_def Let_def)
    with None g have info: "info = \<lparr>sessionId = activeId sel, lastUsed = now, inUse = True\<rparr>"
      and c'0: "c' = cache_set \<lparr>sessionId = activeId sel, lastUsed = now, inUse = True\<rparr> ?c2"
      by (auto simp add: getOptimalSession_def reconcile_def Let_def)
    then have c': "c' = cache_set info ?c2" by simp
    from av have "sel \<in> set ?avail" by simp
    then have sel: "sel \<in> set activeSessions" "\<not> truthy (connectionId sel)" "\<not> cache_has (activeId sel) ?c2"
      by simp_all
    have id: "sessionId info = activeId sel" using info by simp
    have 1: "\<exists>a \<in> set activeSessions. activeId a = sessionId info \<and> \<not> truthy (connectionId a)"
      using sel id by auto
    have "sessionId info \<notin> sessionId ` set ?c2"
      using sel(3) id by (simp add: cache_has_iff)
    then have 2: "\<forall>i \<in> set ?c2. sessionId i = sessionId info \<longrightarrow> \<not> inUse i"
      by (metis imageI)
    have 3: "cache_get (sessionId info) c' = Some info" using c' by (simp add: cache_get_set)
    have 4: "\<not> (\<exists>i \<in> set ?c2. \<not> inUse i \<and>
              (\<exists>a. find (\<lambda>s. activeId s = sessionId i) activeSessions = Some a
                    \<and> \<not> truthy (connectionId a)))"
    proof (intro notI, elim bexE conjE exE)
      fix i a
      assume i: "i \<in> set ?c2" "\<not> inUse i"
        and a: "find (\<lambda>s. activeId s = sessionId i) activeSessions = Some a" "\<not> truthy (connectionId a)"
      from i(1) act have "sessionId i \<in> set ?ids" by blast
      from findCached_None[OF None i(1) i(2) this a(1)] a(2) show False by simp
    qed
    have 5: "inUse info \<and> lastUsed info = now" using info by simp
    from 1 2 3 4 5 show ?thesis by blast
  qed
qed

text \<open>
  C5. When \<^verbatim>\<open>getOptimalSession\<close> returns a session (a tracked entry or a session it
  adopts from the Browser Service's list), then (1) the list has that session with no
  \<^verbatim>\<open>connectionId\<close>; (2) the reconciled registry, on which the choice is made, has no entry
  that marks the session in use; (3) the registry it leaves holds the returned object
  under the session's id, with \<open>inUse\<close> set and \<open>lastUsed\<close> equal to the clock reading
  of this call; (4) if the reconciled registry has a free entry whose session is listed
  without a \<^verbatim>\<open>connectionId\<close>, the returned session is a tracked one.
  The keys of a \<^verbatim>\<open>Map\<close> are distinct, which is the second hypothesis.
\<close>

theorem getOptimalSession_returns_available:
  assumes g: "getOptimalSession now (Inr activeSessions) c = (Some info, c')"
      and d: "distinct (map sessionId c)"
  shows "(\<exists>a \<in> set activeSessions. activeId a = sessionId info \<and> \<not> truthy (connectionId a))
       \<and> (\<forall>i \<in> set (reconcile now activeSessions c). sessionId i = sessionId info \<longrightarrow> \<not> inUse i)
       \<and> cache_get (sessionId info) c' = Some info \<and> inUse info \<and> lastUsed info = now
       \<and> ((\<exists>i \<in> set (reconcile now activeSessions c). \<not> inUse i \<and>
              (\<exists>a. find (\<lambda>s. activeId s = sessionId i) activeSessions = Some a
                    \<and> \<not> truthy (connectionId a)))
            \<longrightarrow> sessionId info \<in> sessionId ` set (reconcile now activeSessions c))"
  using g d by (rule getOptimalSession_Some_facts)

theorem getOptimalSession_returns_available_witness:
  "getOptimalSession 1000
     (Inr [\<lparr>activeId = ''s3'', connectionId = None\<rparr>,
           \<lparr>activeId = ''s1'', connectionId = None\<rparr>,
           \<lparr>activeId = ''s2'', connectionId = None\<rparr>])
     [\<lparr>sessionId = ''s1'', lastUsed = 0, inUse = True\<rparr>,
      \<lparr>sessionId = ''s2'', lastUsed = 0, inUse = False\<rparr>]
   = (Some \<lparr>sessionId = ''s2'', lastUsed = 1000, inUse = True\<rparr>,
      [\<lparr>sessionId = ''s1'', lastUsed = 0, inUse = True\<rparr>,
       \<lparr>sessionId = ''s2'', lastUsed = 1000, inUse = True\<rparr>])
   \<and> distinct (map sessionId [\<lparr>sessionId = ''s1'', lastUsed = 0, inUse = True\<rparr>,
                               \<lparr>sessionId = ''s2'', lastUsed = 0, inUse = False\<rparr>])
   \<and> cache_get ''s2'' [\<lparr>sessionId = ''s1'', lastUsed = 0, inUse = True\<rparr>,
                       \<lparr>sessionId = ''s2'', lastUsed = 1000, inUse = True\<rparr>]
       = Some \<lparr>sessionId = ''s2'', lastUsed = 1000, inUse = True\<rparr>"
proof -
  have g: "getOptimalSession 1000
     (Inr [\<lparr>activeId = ''s3'', connectionId = None\<rparr>,
           \<lparr>activeId = ''s1'', connectionId = None\<rparr>,
           \<lparr>activeId = ''s2'', connectionId = None\<rparr>])
     [\<lparr>sessionId = ''s1'', lastUsed = 0, inUse = True\<rparr>,
      \<lparr>sessionId = ''s2'', lastUsed = 0, inUse = False\<rparr>]
   = (Some \<lparr>sessionId = ''s2'', lastUsed = 1000, inUse = True\<rparr>,
      [\<lparr>sessionId = ''s1'', lastUsed = 0, inUse = True\<rparr>,
       \<lparr>sessionId = ''s2'', lastUsed = 1000, inUse = True\<rparr>])"
    by (simp add: getOptimalSession_def SESSION_TIMEOUT_def truthy_def cache_modify_def)
  have d: "distinct (map sessionId [\<lparr>sessionId = ''s1'', lastUsed = 0, inUse = True\<rparr>,
                               \<lparr>sessionId = ''s2'', lastUsed = 0, inUse = False\<rparr>])"
    by simp
  from getOptimalSession_returns_available[OF g d] g d show ?thesis by simp
qed

section \<open>Facts about the stages of \<^verbatim>\<open>fetch\<close>\<close>

lemmas fetch_eval =
  fetch_def cacheLookup_def renderRequest_def tryBlock_def acquire_def renderPage_def
  releaseSession_def cacheStore_def cleanup_def getOptimalSession_def record_call_def
  exampleWorld_def exampleRequest_def emptyState_def notFoundWorld_def timeoutWorld_def
  trackedState_def listing1_def malformedRequest_def cachedState_def emptyEntryState_def
  tildeRequest_def upperRequest_def collisionWorld_def startsWith_def truthy_def Let_def
  htmlResponse_def faultResponse_def invalidUrlResponse_def cachedResponse_def
  SESSION_TIMEOUT_def cache_has_def cache_get_def cache_modify_def cache_delete_def
  isNullReadError_def errorMessage_def

lemma fetch_content:
  assumes "reqMethod request = ''GET''" "startsWith (pathname request) ''/content/''"
    "drop (length ''/content/'') (pathname request) \<noteq> []"
    "normalizeUrl W (drop (length ''/content/'') (pathname request)) = Some reqUrl"
  shows "fetch W request s =
     (case cacheLookup W (cacheKey reqUrl) s of
        (Some cached, s1) \<Rightarrow> (cachedResponse cached, s1)
      | (None, s1) \<Rightarrow> renderRequest W reqUrl (cacheKey reqUrl) s1)"
  using assms by (simp add: fetch_def)

lemma cacheLookup_hit:
  assumes "hasCache W" "kvGetThrows W = None" "kv s key = Some (payload, ttl)" "payload \<noteq> []"
  shows "cacheLookup W key s = (Some payload, record_call (KvGet key) s)"
  using assms by (simp add: cacheLookup_def truthy_def)

lemma cacheLookup_frame:
  "cacheLookup W key s = (r, s1) \<Longrightarrow>
     kv s1 = kv s \<and> sessionCache s1 = sessionCache s
     \<and> calls s1 = calls s @ (if hasCache W then [KvGet key] else [])"
  by (auto simp: cacheLookup_def record_call_def Let_def split: if_splits option.splits)

lemma acquire_frame:
  "acquire W s = (r, L, s1) \<Longrightarrow> kv s1 = kv s \<and> filter isKvPut (calls s1) = filter isKvPut (calls s)"
  by (auto simp: acquire_def record_call_def Let_def isKvPut_def split: prod.splits option.splits sum.splits)

lemma renderPage_frame:
  "renderPage W reqUrl s = (r, s1) \<Longrightarrow>
     kv s1 = kv s \<and> sessionCache s1 = sessionCache s
     \<and> filter isKvPut (calls s1) = filter isKvPut (calls s)
     \<and> filter isConnect (calls s1) = filter isConnect (calls s)"
  by (auto simp: renderPage_def record_call_def Let_def isKvPut_def isConnect_def split: option.splits sum.splits)

lemma releaseSession_frame:
  "releaseSession W L s = (r, s1) \<Longrightarrow>
     kv s1 = kv s
     \<and> filter isKvPut (calls s1) = filter isKvPut (calls s)
     \<and> filter isConnect (calls s1) = filter isConnect (calls s)"
  by (auto simp: releaseSession_def record_call_def Let_def isKvPut_def isConnect_def split: if_splits option.splits)

lemma cleanup_frame:
  "kv (cleanup e L s) = kv s
     \<and> filter isKvPut (calls (cleanup e L s)) = filter isKvPut (calls s)
     \<and> filter isConnect (calls (cleanup e L s)) = filter isConnect (calls s)"
  by (auto simp: cleanup_def record_call_def Let_def isKvPut_def isConnect_def split: option.splits)

lemma tryBlock_Inl_frame:
  assumes "tryBlock W reqUrl key s = (Inl e, L, s')"
  shows "kv s' = kv s \<and> filter isKvPut (calls s') = filter isKvPut (calls s)"
proof -
  obtain r1 L1 s1 where a: "acquire W s = (r1, L1, s1)" by (metis prod_cases3)
  obtain r2 s2 where p: "renderPage W reqUrl s1 = (r2, s2)" by (metis surj_pair)
  obtain r3 s3 where q: "releaseSession W L1 s2 = (r3, s3)" by (metis surj_pair)
  from assms a p q have "s' = s1 \<or> s' = s2 \<or> s' = s3"
    by (auto simp: tryBlock_def split: option.splits sum.splits)
  with acquire_frame[OF a] renderPage_frame[OF p] releaseSession_frame[OF q]
  show ?thesis by auto
qed

lemma renderRequest_500:
  assumes "status (fst (renderRequest W reqUrl key s)) = 500"
  shows "kv (snd (renderRequest W reqUrl key s)) = kv s
     \<and> filter isKvPut (calls (snd (renderRequest W reqUrl key s))) = filter isKvPut (calls s)"
proof -
  obtain r L s' where t: "tryBlock W reqUrl key s = (r, L, s')" by (metis prod_cases3)
  show ?thesis
  proof (cases r)
    case (Inl e)
    with t have "snd (renderRequest W reqUrl key s) = cleanup e L s'"
      by (simp add: renderRequest_def)
    with tryBlock_Inl_frame[OF t[unfolded Inl]] cleanup_frame[of e L s'] show ?thesis by simp
  next
    case (Inr html)
    with t assms show ?thesis by (simp add: renderRequest_def htmlResponse_def)
  qed
qed

lemma renderPage_fst: "fst (renderPage W u s) = fst (renderPage W u s')"
  by (simp add: renderPage_def Let_def split: option.splits sum.splits)

lemma releaseSession_fst:
  "fst (releaseSession W L s) = (if launched L then disconnectResult W else None)"
  by (simp add: releaseSession_def Let_def split: option.splits)

lemma renderRequest_fst:
  "fst (renderRequest W u k s) =
     (case fst (acquire W s) of
        Some e \<Rightarrow> faultResponse W e u
      | None \<Rightarrow>
          (case fst (renderPage W u s) of
             Inl e \<Rightarrow> faultResponse W e u
           | Inr html \<Rightarrow>
               (case (if launched (fst (snd (acquire W s))) then disconnectResult W else None) of
                  Some e \<Rightarrow> faultResponse W e u
                | None \<Rightarrow> htmlResponse html)))"
proof -
  obtain r1 L1 s1 where a: "acquire W s = (r1, L1, s1)" by (metis prod_cases3)
  obtain r2 s2 where p: "renderPage W u s1 = (r2, s2)" by (metis surj_pair)
  obtain r3 s3 where q: "releaseSession W L1 s2 = (r3, s3)" by (metis surj_pair)
  have r2: "fst (renderPage W u s) = r2" using p renderPage_fst[of W u s s1] by simp
  have r3: "(if launched L1 then disconnectResult W else None) = r3"
    using q releaseSession_fst[of W L1 s2] by simp
  show ?thesis
    unfolding r2 
    using a p q r3
    by (cases r1; cases r2; cases r3) (simp_all add: renderRequest_def tryBlock_def)
qed

lemma acquire_listing_fails:
  assumes "sessionsResult W = Inl e"
  shows "acquire W s =
     (case launchResult W of
        Inr b \<Rightarrow> (None, \<lparr>browser = Some b, launched = True, sessionInfo = None\<rparr>,
                  record_call Launch (record_call Sessions
                    (s\<lparr>sessionCache := removeExpired (now1 W) (sessionCache s)\<rparr>)))
      | Inl e' \<Rightarrow> (Some e', \<lparr>browser = None, launched = False, sessionInfo = None\<rparr>,
                  record_call Launch (record_call Sessions
                    (s\<lparr>sessionCache := removeExpired (now1 W) (sessionCache s)\<rparr>))))"
  using assms by (simp add: acquire_def getOptimalSession_def Let_def split: sum.splits)

lemma getOptimalSession_empty_listing:
  "getOptimalSession now (Inr []) c = (None, [])"
  by (simp add: getOptimalSession_def removeStale_filter)

lemma acquire_empty_listing:
  assumes "sessionsResult W = Inr []"
  shows "fst (acquire W s) = (case launchResult W of Inr b \<Rightarrow> None | Inl e' \<Rightarrow> Some e')
     \<and> launched (fst (snd (acquire W s))) = (case launchResult W of Inr b \<Rightarrow> True | Inl e' \<Rightarrow> False)"
  using assms by (simp add: acquire_def getOptimalSession_empty_listing Let_def split: sum.splits)

lemma calls_renderRequest:
  "\<exists>rest. calls (snd (renderRequest W u k s)) = calls (snd (snd (acquire W s))) @ rest
         \<and> filter isConnect rest = []"
proof -
  obtain r1 L1 s1 where a: "acquire W s = (r1, L1, s1)" by (metis prod_cases3)
  have rp: "\<And>s. \<exists>rest. calls (snd (renderPage W u s)) = calls s @ rest \<and> filter isConnect rest = []"
    by (simp add: renderPage_def record_call_def Let_def isConnect_def split: option.splits sum.splits)
  have rl: "\<And>L s. \<exists>rest. calls (snd (releaseSession W L s)) = calls s @ rest \<and> filter isConnect rest = []"
    by (simp add: releaseSession_def record_call_def Let_def isConnect_def split: option.splits)
  have cs: "\<And>h s. \<exists>rest. calls (cacheStore W k h s) = calls s @ rest \<and> filter isConnect rest = []"
    by (simp add: cacheStore_def record_call_def Let_def isConnect_def split: option.splits)
  have cl: "\<And>e L s. \<exists>rest. calls (cleanup e L s) = calls s @ rest \<and> filter isConnect rest = []"
    by (simp add: cleanup_def record_call_def Let_def isConnect_def split: option.splits)
  obtain r2 s2 where p: "renderPage W u s1 = (r2, s2)" by (metis surj_pair)
  obtain r3 s3 where q: "releaseSession W L1 s2 = (r3, s3)" by (metis surj_pair)
  from rp[of s1] p obtain x2 where x2: "calls s2 = calls s1 @ x2" "filter isConnect x2 = []" by auto
  from rl[of L1 s2] q obtain x3 where x3: "calls s3 = calls s2 @ x3" "filter isConnect x3 = []" by auto
  show ?thesis
  proof (cases r1)
    case (Some e)
    with a have "snd (renderRequest W u k s) = cleanup e L1 s1"
      by (simp add: renderRequest_def tryBlock_def)
    with cl[of e L1 s1] a show ?thesis by simp
  next
    case None
    note r1 = this
    show ?thesis
    proof (cases r2)
      case (Inl e)
      with a p r1 have "snd (renderRequest W u k s) = cleanup e L1 s2"
        by (simp add: renderRequest_def tryBlock_def)
      with cl[of e L1 s2] a x2 show ?thesis by auto
    next
      case (Inr html)
      note r2 = this
      show ?thesis
      proof (cases r3)
        case (Some e)
        with a p q r1 r2 have "snd (renderRequest W u k s) = cleanup e L1 s3"
          by (simp add: renderRequest_def tryBlock_def)
        with cl[of e L1 s3] a x2 x3 show ?thesis by auto
      next
        case None
        with a p q r1 r2 have "snd (renderRequest W u k s) = cacheStore W k html s3"
          by (simp add: renderRequest_def tryBlock_def)
        with cs[of html s3] a x2 x3 show ?thesis by auto
      qed
    qed
  qed
qed


lemma acquire_connect_fails:
  assumes "getOptimalSession (now1 W) (sessionsResult W) (sessionCache s) = (Some info, c1)"
    and "connectResult W (sessionId info) = Inl err"
  shows "acquire W s =
     (case launchResult W of
        Inr b \<Rightarrow> (None, \<lparr>browser = Some b, launched = True, sessionInfo = None\<rparr>,
                  s\<lparr>sessionCache := cache_delete (sessionId info) c1,
                    calls := calls s @ [Sessions, Connect (sessionId info), Launch]\<rparr>)
      | Inl e \<Rightarrow> (Some e, \<lparr>browser = None, launched = False, sessionInfo = None\<rparr>,
                  s\<lparr>sessionCache := cache_delete (sessionId info) c1,
                    calls := calls s @ [Sessions, Connect (sessionId info), Launch]\<rparr>))"
  using assms by (simp add: acquire_def record_call_def Let_def split: sum.splits)

lemma acquire_connect_ok:
  assumes "getOptimalSession (now1 W) (sessionsResult W) (sessionCache s) = (Some info, c1)"
    and "connectResult W (sessionId info) = Inr b"
  shows "acquire W s =
     (None, \<lparr>browser = Some b, launched = False, sessionInfo = Some info\<rparr>,
      s\<lparr>sessionCache := c1, calls := calls s @ [Sessions, Connect (sessionId info)]\<rparr>)"
  using assms by (simp add: acquire_def record_call_def Let_def)

lemma cleanup_registry_noinfo:
  "sessionInfo L = None \<Longrightarrow> sessionCache (cleanup e L s) = sessionCache s"
  by (simp add: cleanup_def record_call_def Let_def split: option.splits)

lemma cleanup_registry_info:
  "browser L = Some b \<Longrightarrow> sessionInfo L = Some info \<Longrightarrow>
   sessionCache (cleanup e L s) =
     (if isNullReadError e then cache_delete (sessionId info) (sessionCache s)
      else cache_modify (sessionId info) (\<lambda>i. i\<lparr>inUse := False\<rparr>) (sessionCache s))"
  by (simp add: cleanup_def record_call_def Let_def)

lemma cacheStore_registry: "sessionCache (cacheStore W k h s) = sessionCache s"
  by (simp add: cacheStore_def record_call_def Let_def split: option.splits)

lemma releaseSession_registry_launched:
  assumes "launched L" "browser L = Some b"
  shows "sessionId ` set (sessionCache (snd (releaseSession W L s)))
     \<subseteq> sessionId ` set (sessionCache s) \<union> {sid. sessionIdProperty b = Some sid}"
proof (cases "sessionIdProperty b")
  case None
  with assms show ?thesis by (simp add: releaseSession_def record_call_def Let_def)
next
  case (Some sid)
  show ?thesis
  proof (cases "truthy (Some sid)")
    case False
    with Some assms show ?thesis by (auto simp add: releaseSession_def record_call_def Let_def)
  next
    case True
    with Some assms have "sessionCache (snd (releaseSession W L s))
        = cache_set \<lparr>sessionId = sid, lastUsed = now2 W, inUse = False\<rparr> (sessionCache s)"
      by (simp add: releaseSession_def record_call_def Let_def)
    moreover have "sessionId ` set (cache_set \<lparr>sessionId = sid, lastUsed = now2 W, inUse = False\<rparr> (sessionCache s))
        \<subseteq> insert sid (sessionId ` set (sessionCache s))"
      using ids_cache_set[of "\<lparr>sessionId = sid, lastUsed = now2 W, inUse = False\<rparr>" "sessionCache s"]
      by simp
    ultimately show ?thesis using Some by auto
  qed
qed

lemma renderPage_registry: "sessionCache (snd (renderPage W u s)) = sessionCache s"
  by (simp add: renderPage_def record_call_def Let_def split: option.splits sum.splits)

lemma ids_cache_delete: "k \<notin> sessionId ` set (cache_delete k c)"
  by (auto simp: cache_delete_def)

lemma cache_get_modify_map:
  "(\<And>j. sessionId (f j) = sessionId j) \<Longrightarrow>
   cache_get k (cache_modify k f c) = map_option f (cache_get k c)"
  by (induction c) (auto simp: cache_get_def cache_modify_def)


lemma fetch_miss:
  assumes "reqMethod request = ''GET''" "startsWith (pathname request) ''/content/''"
    "drop (length ''/content/'') (pathname request) \<noteq> []"
    "normalizeUrl W (drop (length ''/content/'') (pathname request)) = Some reqUrl"
    "fst (cacheLookup W (cacheKey reqUrl) s) = None"
  shows "fetch W request s =
     renderRequest W reqUrl (cacheKey reqUrl) (snd (cacheLookup W (cacheKey reqUrl) s))"
  using fetch_content[OF assms(1-4), of s] assms(5)
  by (cases "cacheLookup W (cacheKey reqUrl) s") simp

lemma cacheLookup_registry: "sessionCache (snd (cacheLookup W key s)) = sessionCache s"
  by (simp add: cacheLookup_def record_call_def Let_def split: option.splits)

lemma cacheLookup_world: "cacheLookup (W\<lparr>sessionsResult := l\<rparr>) key s = cacheLookup W key s"
  by (simp add: cacheLookup_def)

lemma renderPage_world: "renderPage (W\<lparr>sessionsResult := l\<rparr>) u s = renderPage W u s"
  by (simp add: renderPage_def Let_def split: option.splits sum.splits)

lemma getOptimalSession_Some_listing:
  "getOptimalSession now l c = (Some info, c') \<Longrightarrow> \<exists>act. l = Inr act"
  by (cases l) (simp_all add: getOptimalSession_def)


section \<open>The keys of the registry stay distinct\<close>

lemma ids_cache_modify_map:
  "(\<And>j. sessionId (f j) = sessionId j) \<Longrightarrow> map sessionId (cache_modify k f c) = map sessionId c"
  by (induction c) (simp_all add: cache_modify_def)

lemma distinct_cache_set:
  "distinct (map sessionId c) \<Longrightarrow> distinct (map sessionId (cache_set v c))"
proof (induction c)
  case Nil
  then show ?case by simp
next
  case (Cons i c)
  show ?case
  proof (cases "sessionId i = sessionId v")
    case True
    with Cons.prems show ?thesis by simp
  next
    case False
    have "sessionId ` set (cache_set v c) \<subseteq> insert (sessionId v) (sessionId ` set c)"
      by (rule ids_cache_set)
    with False Cons show ?thesis by auto
  qed
qed

lemma distinct_cache_delete:
  "distinct (map sessionId c) \<Longrightarrow> distinct (map sessionId (cache_delete k c))"
  by (simp add: cache_delete_def distinct_map_filter)

lemma distinct_removeExpired:
  "distinct (map sessionId c) \<Longrightarrow> distinct (map sessionId (removeExpired now c))"
  by (simp add: removeExpired_filter distinct_map_filter)

lemma distinct_getOptimalSession:
  assumes "distinct (map sessionId c)"
  shows "distinct (map sessionId (snd (getOptimalSession now l c)))"
proof (cases l)
  case (Inl e)
  with assms show ?thesis by (simp add: getOptimalSession_def distinct_removeExpired)
next
  case (Inr act)
  let ?c2 = "reconcile now act c"
  have d2: "distinct (map sessionId ?c2)" using assms by (rule distinct_reconcile)
  show ?thesis
  proof (cases "findCached act (map activeId act) ?c2")
    case (Some i0)
    with Inr have "snd (getOptimalSession now l c)
        = cache_modify (sessionId i0) (\<lambda>i. i\<lparr>inUse := True, lastUsed := now\<rparr>) ?c2"
      by (simp add: getOptimalSession_def reconcile_def Let_def)
    with d2 show ?thesis by (simp add: ids_cache_modify_map)
  next
    case None
    show ?thesis
    proof (cases "filter (\<lambda>v. \<not> truthy (connectionId v) \<and> \<not> cache_has (activeId v) ?c2) act")
      case Nil
      with None Inr have "snd (getOptimalSession now l c) = ?c2"
        by (simp add: getOptimalSession_def reconcile_def Let_def)
      with d2 show ?thesis by simp
    next
      case (Cons sel rest)
      with None Inr have "snd (getOptimalSession now l c)
          = cache_set \<lparr>sessionId = activeId sel, lastUsed = now, inUse = True\<rparr> ?c2"
        by (simp add: getOptimalSession_def reconcile_def Let_def)
      with d2 show ?thesis by (simp add: distinct_cache_set)
    qed
  qed
qed

lemma distinct_acquire:
  assumes "distinct (map sessionId (sessionCache s))"
  shows "distinct (map sessionId (sessionCache (snd (snd (acquire W s)))))"
proof -
  obtain r c1 where g: "getOptimalSession (now1 W) (sessionsResult W) (sessionCache s) = (r, c1)"
    by (metis surj_pair)
  have d1: "distinct (map sessionId c1)"
    using distinct_getOptimalSession[OF assms, of "now1 W" "sessionsResult W"] g by simp
  then have d2: "distinct (map sessionId (cache_delete k c1))" for k
    by (rule distinct_cache_delete)
  from g d1 d2 show ?thesis
    by (simp add: acquire_def record_call_def Let_def split: option.splits sum.splits)
qed

lemma distinct_releaseSession:
  assumes "distinct (map sessionId (sessionCache s))"
  shows "distinct (map sessionId (sessionCache (snd (releaseSession W L s))))"
  using assms
  by (simp add: releaseSession_def record_call_def Let_def distinct_cache_set ids_cache_modify_map
           split: option.splits)

lemma distinct_cleanup:
  assumes "distinct (map sessionId (sessionCache s))"
  shows "distinct (map sessionId (sessionCache (cleanup e L s)))"
  using assms
  by (simp add: cleanup_def record_call_def Let_def distinct_cache_delete ids_cache_modify_map
           split: option.splits)

lemma distinct_renderRequest:
  assumes "distinct (map sessionId (sessionCache s))"
  shows "distinct (map sessionId (sessionCache (snd (renderRequest W u k s))))"
proof -
  obtain r1 L1 s1 where a: "acquire W s = (r1, L1, s1)" by (metis prod_cases3)
  obtain r2 s2 where p: "renderPage W u s1 = (r2, s2)" by (metis surj_pair)
  obtain r3 s3 where q: "releaseSession W L1 s2 = (r3, s3)" by (metis surj_pair)
  have d1: "distinct (map sessionId (sessionCache s1))" using distinct_acquire[OF assms, of W] a by simp
  have d2: "distinct (map sessionId (sessionCache s2))"
    using d1 renderPage_registry[of W u s1] p by simp
  have d3: "distinct (map sessionId (sessionCache s3))"
    using distinct_releaseSession[OF d2, of W L1] q by simp
  show ?thesis
    using a p q distinct_cleanup[OF d1] distinct_cleanup[OF d2] distinct_cleanup[OF d3] d3
    by (cases r1; cases r2; cases r3)
       (simp_all add: renderRequest_def tryBlock_def cacheStore_registry)
qed

lemma registry_keys_stay_distinct:
  assumes "distinct (map sessionId (sessionCache s))"
  shows "distinct (map sessionId (sessionCache (snd (fetch W request s))))"
proof (cases "reqMethod request = ''GET'' \<and> startsWith (pathname request) ''/content/''
              \<and> drop (length ''/content/'') (pathname request) \<noteq> []")
  case False
  then have "snd (fetch W request s) = s" by (auto simp: fetch_def Let_def)
  with assms show ?thesis by simp
next
  case True
  show ?thesis
  proof (cases "normalizeUrl W (drop (length ''/content/'') (pathname request))")
    case None
    with True have "snd (fetch W request s) = s" by (simp add: fetch_def)
    with assms show ?thesis by simp
  next
    case (Some u)
    obtain r s1 where l: "cacheLookup W (cacheKey u) s = (r, s1)" by (metis surj_pair)
    have d1: "distinct (map sessionId (sessionCache s1))"
      using assms cacheLookup_registry[of W "cacheKey u" s] l by simp
    from True Some have f: "fetch W request s =
       (case cacheLookup W (cacheKey u) s of
          (Some cached, s1) \<Rightarrow> (cachedResponse cached, s1)
        | (None, s1) \<Rightarrow> renderRequest W u (cacheKey u) s1)"
      by (intro fetch_content) simp_all
    show ?thesis
    proof (cases r)
      case None
      with f l have "fetch W request s = renderRequest W u (cacheKey u) s1" by simp
      with distinct_renderRequest[OF d1, of W u "cacheKey u"] show ?thesis by simp
    next
      case (Some cached)
      with f l have "snd (fetch W request s) = s1" by simp
      with d1 show ?thesis by simp
    qed
  qed
qed

section \<open>Two URLs under one cache key\<close>

text \<open>
  C3: distinct normalized URLs never get the same cache key. The handler does not achieve
  that: the two distinct URLs \<^verbatim>\<open>https://example.com/ab/~ad\<close> and
  \<^verbatim>\<open>https://example.com/ab/XY\<close> get the same key, so after a request for the first has been
  rendered and stored, a request for the second is answered from the Content Store with
  the page of the first, and its only call is the \<^verbatim>\<open>get\<close>.
\<close>

theorem colliding_urls_share_cache_entry:
  "''https://example.com/ab/~ad'' \<noteq> ''https://example.com/ab/XY''
   \<and> cacheKey ''https://example.com/ab/~ad'' = cacheKey ''https://example.com/ab/XY''
   \<and> status (fst (fetch collisionWorld upperRequest
                     (snd (fetch collisionWorld tildeRequest emptyState)))) = 200
   \<and> body (fst (fetch collisionWorld upperRequest
                   (snd (fetch collisionWorld tildeRequest emptyState))))
       = Text ''<html>page of /ab/~ad</html>''
   \<and> calls (snd (fetch collisionWorld upperRequest
                    (snd (fetch collisionWorld tildeRequest emptyState))))
       = calls (snd (fetch collisionWorld tildeRequest emptyState))
         @ [KvGet (cacheKey ''https://example.com/ab/XY'')]"
proof -
  have first: "fetch collisionWorld tildeRequest emptyState =
     (htmlResponse ''<html>page of /ab/~ad</html>'',
      \<lparr>sessionCache = [\<lparr>sessionId = ''new'', lastUsed = 2000, inUse = False\<rparr>],
       kv = [cacheKey ''https://example.com/ab/~ad'' \<mapsto> (''<html>page of /ab/~ad</html>'', 3600)],
       calls = [KvGet (cacheKey ''https://example.com/ab/~ad''), Sessions, Launch, NewPage,
                SetUserAgent DEFAULT_USER_AGENT, SetRequestInterception,
                Goto ''https://example.com/ab/~ad'', Content, PageClose, Disconnect,
                KvPut (cacheKey ''https://example.com/ab/~ad'') ''<html>page of /ab/~ad</html>'' 3600]\<rparr>)"
    by (simp add: fetch_eval)
  show ?thesis
    unfolding first
    by (simp add: fetch_eval cacheKey_example_collision)
qed

section \<open>Malformed target URLs\<close>

text \<open>
  C9. A \<^verbatim>\<open>GET /content/...\<close> request whose (non-empty) target does not parse, that is,
  for which \<^verbatim>\<open>decodeURIComponent\<close> or \<^verbatim>\<open>new URL\<close> throws, is answered with status 400 and
  the error \<^verbatim>\<open>Invalid URL format\<close>, and the whole state is as before: no call on the
  Content Store or the Browser Service was made and the registry is untouched.
\<close>

theorem invalid_url_rejected_before_session_work:
  assumes "reqMethod request = ''GET''" "startsWith (pathname request) ''/content/''"
    "drop (length ''/content/'') (pathname request) \<noteq> []"
    "normalizeUrl W (drop (length ''/content/'') (pathname request)) = None"
  shows "status (fst (fetch W request s)) = 400
     \<and> body (fst (fetch W request s)) = Json [(''success'', JBool False), (''error'', JString ''Invalid URL format'')]
     \<and> snd (fetch W request s) = s"
  using assms by (simp add: fetch_def invalidUrlResponse_def)

theorem invalid_url_rejected_before_session_work_witness:
  "reqMethod malformedRequest = ''GET''
   \<and> startsWith (pathname malformedRequest) ''/content/''
   \<and> drop (length ''/content/'') (pathname malformedRequest) \<noteq> []
   \<and> normalizeUrl exampleWorld (drop (length ''/content/'') (pathname malformedRequest)) = None
   \<and> status (fst (fetch exampleWorld malformedRequest trackedState)) = 400
   \<and> snd (fetch exampleWorld malformedRequest trackedState) = trackedState"
proof -
  have h1: "reqMethod malformedRequest = ''GET''" by (simp add: malformedRequest_def)
  have h2: "startsWith (pathname malformedRequest) ''/content/''"
    by (simp add: malformedRequest_def startsWith_def)
  have h3: "drop (length ''/content/'') (pathname malformedRequest) \<noteq> []"
    by (simp add: malformedRequest_def)
  have h4: "normalizeUrl exampleWorld (drop (length ''/content/'') (pathname malformedRequest)) = None"
    by (simp add: malformedRequest_def exampleWorld_def)
  from invalid_url_rejected_before_session_work[OF h1 h2 h3 h4, of trackedState] h1 h2 h3 h4
  show ?thesis by simp
qed

section \<open>Cache hits\<close>

text \<open>
  C7, as stated: whenever the Content Store has an entry for the normalized target, the
  handler returns the cached payload and makes no call on the Browser Service. It fails
  for an entry whose payload is the empty string: \<^verbatim>\<open>if (cached)\<close> is false for it, so the
  handler lists the sessions, launches a browser, renders the page, answers with the
  rendered HTML and puts it in the store.
\<close>

theorem empty_entry_is_rendered_again:
  "kv emptyEntryState (cacheKey ''https://example.com/'') = Some ([], 3600)
   \<and> body (fst (fetch exampleWorld exampleRequest emptyEntryState)) = Text ''<html>rendered</html>''
   \<and> calls (snd (fetch exampleWorld exampleRequest emptyEntryState))
       = [KvGet (cacheKey ''https://example.com/''), Sessions, Launch, NewPage,
          SetUserAgent DEFAULT_USER_AGENT, SetRequestInterception, Goto ''https://example.com/'',
          Content, PageClose, Disconnect,
          KvPut (cacheKey ''https://example.com/'') ''<html>rendered</html>'' 3600]"
  by (simp add: fetch_eval)

text \<open>
  C7, amended: when the Content Store is bound and its \<^verbatim>\<open>get\<close> for the key of the
  normalized target resolves to a non-empty payload, the handler answers 200 with that
  payload, and the only call it makes is that \<^verbatim>\<open>get\<close>: no listing, no connect, no launch,
  no page call; the registry and the store are as before.
\<close>

theorem cache_hit_short_circuits:
  assumes "reqMethod request = ''GET''" "startsWith (pathname request) ''/content/''"
    "drop (length ''/content/'') (pathname request) \<noteq> []"
    "normalizeUrl W (drop (length ''/content/'') (pathname request)) = Some reqUrl"
    "hasCache W" "kvGetThrows W = None" "kv s (cacheKey reqUrl) = Some (payload, ttl)" "payload \<noteq> []"
  shows "status (fst (fetch W request s)) = 200
     \<and> body (fst (fetch W request s)) = Text payload
     \<and> calls (snd (fetch W request s)) = calls s @ [KvGet (cacheKey reqUrl)]
     \<and> sessionCache (snd (fetch W request s)) = sessionCache s
     \<and> kv (snd (fetch W request s)) = kv s"
  using assms fetch_content[OF assms(1-4), of s] cacheLookup_hit[OF assms(5-8)]
  by (simp add: cachedResponse_def record_call_def)

theorem cache_hit_short_circuits_witness:
  "kv cachedState (cacheKey ''https://example.com/'') = Some (''<html>cached</html>'', 3600)
   \<and> body (fst (fetch exampleWorld exampleRequest cachedState)) = Text ''<html>cached</html>''
   \<and> calls (snd (fetch exampleWorld exampleRequest cachedState))
       = [KvGet (cacheKey ''https://example.com/'')]"
proof -
  have h1: "reqMethod exampleRequest = ''GET''" by (simp add: exampleRequest_def)
  have h2: "startsWith (pathname exampleRequest) ''/content/''"
    by (simp add: exampleRequest_def startsWith_def)
  have h3: "drop (length ''/content/'') (pathname exampleRequest) \<noteq> []"
    by (simp add: exampleRequest_def)
  have h4: "normalizeUrl exampleWorld (drop (length ''/content/'') (pathname exampleRequest))
      = Some ''https://example.com/''"
    by (simp add: exampleRequest_def exampleWorld_def)
  have h5: "hasCache exampleWorld" by (simp add: exampleWorld_def)
  have h6: "kvGetThrows exampleWorld = None" by (simp add: exampleWorld_def)
  have h7: "kv cachedState (cacheKey ''https://example.com/'') = Some (''<html>cached</html>'', 3600)"
    by (simp add: cachedState_def emptyState_def)
  have h8: "''<html>cached</html>'' \<noteq> []" by simp
  from cache_hit_short_circuits[OF h1 h2 h3 h4 h5 h6 h7 h8] h7
  show ?thesis by (simp add: cachedState_def emptyState_def)
qed

section \<open>The error path and the Content Store\<close>

text \<open>
  C10. Whenever \<^verbatim>\<open>fetch\<close> answers with status 500, the Content Store holds what it held
  before the request, and the request made no \<^verbatim>\<open>put\<close> on it.
\<close>

theorem fault_leaves_content_store_unchanged:
  assumes "status (fst (fetch W request s)) = 500"
  shows "kv (snd (fetch W request s)) = kv s
     \<and> filter isKvPut (calls (snd (fetch W request s))) = filter isKvPut (calls s)"
proof -
  let ?target = "drop (length ''/content/'') (pathname request)"
  from assms have r: "reqMethod request = ''GET''" "startsWith (pathname request) ''/content/''"
      "?target \<noteq> []"
    by (auto simp: fetch_def preflightResponse_def staticResponse_def notAllowedResponse_def
          missingTargetResponse_def Let_def split: if_splits)
  from assms r obtain reqUrl where u: "normalizeUrl W ?target = Some reqUrl"
    by (cases "normalizeUrl W ?target") (auto simp: fetch_def invalidUrlResponse_def)
  obtain c s1 where l: "cacheLookup W (cacheKey reqUrl) s = (c, s1)" by (metis surj_pair)
  from assms fetch_content[OF r u, of s] l have c: "c = None"
    by (cases c) (auto simp: cachedResponse_def)
  with fetch_content[OF r u, of s] l
  have f: "fetch W request s = renderRequest W reqUrl (cacheKey reqUrl) s1" by simp
  from cacheLookup_frame[OF l] have "kv s1 = kv s" "filter isKvPut (calls s1) = filter isKvPut (calls s)"
    by (auto simp: isKvPut_def)
  with renderRequest_500[of W reqUrl "cacheKey reqUrl" s1] assms f show ?thesis by simp
qed

theorem fault_leaves_content_store_unchanged_witness:
  "status (fst (fetch timeoutWorld exampleRequest emptyState)) = 500
   \<and> kv (snd (fetch timeoutWorld exampleRequest emptyState)) = kv emptyState
   \<and> filter isKvPut (calls (snd (fetch timeoutWorld exampleRequest emptyState)))
       = filter isKvPut (calls emptyState)"
proof -
  have h: "status (fst (fetch timeoutWorld exampleRequest emptyState)) = 500"
    by (simp add: fetch_eval)
  from fault_leaves_content_store_unchanged[OF h] h show ?thesis by simp
qed

section \<open>Failure of the session listing\<close>

text \<open>
  C8. When \<^verbatim>\<open>puppeteer.sessions\<close> throws, \<^verbatim>\<open>getOptimalSession\<close> returns \<^verbatim>\<open>null\<close> (the error
  does not leave it), and a request that reached the acquisition goes on to
  \<^verbatim>\<open>puppeteer.launch\<close> right after the listing, without any connect. Its response is the
  response the same request gets when the listing succeeds with an empty array; in
  particular, when the launch, the page calls and the disconnect succeed, it is the 200
  response with the rendered HTML.
\<close>

theorem listing_failure_provisions_new_session:
  assumes "reqMethod request = ''GET''" "startsWith (pathname request) ''/content/''"
    "drop (length ''/content/'') (pathname request) \<noteq> []"
    "normalizeUrl W (drop (length ''/content/'') (pathname request)) = Some reqUrl"
    "fst (cacheLookup W (cacheKey reqUrl) s) = None"
    "sessionsResult W = Inl e"
  shows "fst (getOptimalSession (now1 W) (sessionsResult W) (sessionCache s)) = None
     \<and> (\<exists>rest. calls (snd (fetch W request s))
            = calls (snd (cacheLookup W (cacheKey reqUrl) s)) @ [Sessions, Launch] @ rest
          \<and> filter isConnect rest = [])
     \<and> fst (fetch W request s) = fst (fetch (W\<lparr>sessionsResult := Inr []\<rparr>) request s)
     \<and> (\<forall>b html. launchResult W = Inr b \<and> fst (renderPage W reqUrl s) = Inr html
            \<and> disconnectResult W = None
          \<longrightarrow> fst (fetch W request s) = htmlResponse html)"
proof -
  let ?k = "cacheKey reqUrl"
  let ?s1 = "snd (cacheLookup W ?k s)"
  let ?W' = "W\<lparr>sessionsResult := Inr []\<rparr>"
  have f: "fetch W request s = renderRequest W reqUrl ?k ?s1"
    using assms(1-5) by (rule fetch_miss)
  have f': "fetch ?W' request s = renderRequest ?W' reqUrl ?k ?s1"
    using fetch_miss[of request ?W' reqUrl s] assms(1-5) by (simp add: cacheLookup_world)
  have 1: "fst (getOptimalSession (now1 W) (sessionsResult W) (sessionCache s)) = None"
    using assms(6) by (simp add: getOptimalSession_def)
  have a: "fst (acquire W ?s1) = (case launchResult W of Inr b \<Rightarrow> None | Inl e' \<Rightarrow> Some e')"
    "launched (fst (snd (acquire W ?s1))) = (case launchResult W of Inr b \<Rightarrow> True | Inl e' \<Rightarrow> False)"
    "calls (snd (snd (acquire W ?s1))) = calls ?s1 @ [Sessions, Launch]"
    using acquire_listing_fails[OF assms(6), of ?s1]
    by (simp_all add: record_call_def split: sum.splits)
  have a': "fst (acquire ?W' ?s1) = (case launchResult W of Inr b \<Rightarrow> None | Inl e' \<Rightarrow> Some e')"
    "launched (fst (snd (acquire ?W' ?s1))) = (case launchResult W of Inr b \<Rightarrow> True | Inl e' \<Rightarrow> False)"
    using acquire_empty_listing[of ?W' ?s1] by simp_all
  from calls_renderRequest[of W reqUrl ?k ?s1] a(3) f
  have 2: "\<exists>rest. calls (snd (fetch W request s)) = calls ?s1 @ [Sessions, Launch] @ rest
          \<and> filter isConnect rest = []"
    by auto
  have 3: "fst (fetch W request s) = fst (fetch ?W' request s)"
    unfolding f f' renderRequest_fst a(1,2) a'(1,2)
    by (simp add: renderPage_world faultResponse_def split: sum.splits option.splits)
  have 4: "\<forall>b html. launchResult W = Inr b \<and> fst (renderPage W reqUrl s) = Inr html
            \<and> disconnectResult W = None
          \<longrightarrow> fst (fetch W request s) = htmlResponse html"
    unfolding f renderRequest_fst a(1,2) renderPage_fst[of W reqUrl ?s1 s]
    by simp
  from 1 2 3 4 show ?thesis by blast
qed

theorem listing_failure_provisions_new_session_witness:
  "sessionsResult (exampleWorld\<lparr>sessionsResult := Inl (JsError ''sessions unavailable'')\<rparr>)
     = Inl (JsError ''sessions unavailable'')
   \<and> fst (getOptimalSession 1000 (Inl (JsError ''sessions unavailable'')) (sessionCache trackedState))
       = None
   \<and> fst (fetch (exampleWorld\<lparr>sessionsResult := Inl (JsError ''sessions unavailable'')\<rparr>)
            exampleRequest trackedState)
       = htmlResponse ''<html>rendered</html>''"
proof -
  let ?W = "exampleWorld\<lparr>sessionsResult := Inl (JsError ''sessions unavailable'')\<rparr>"
  have h1: "reqMethod exampleRequest = ''GET''" by (simp add: exampleRequest_def)
  have h2: "startsWith (pathname exampleRequest) ''/content/''"
    by (simp add: exampleRequest_def startsWith_def)
  have h3: "drop (length ''/content/'') (pathname exampleRequest) \<noteq> []"
    by (simp add: exampleRequest_def)
  have h4: "normalizeUrl ?W (drop (length ''/content/'') (pathname exampleRequest))
      = Some ''https://example.com/''"
    by (simp add: exampleRequest_def exampleWorld_def timeoutWorld_def)
  have h5: "fst (cacheLookup ?W (cacheKey ''https://example.com/'') trackedState) = None"
    by (simp add: fetch_eval)
  have h6: "sessionsResult ?W = Inl (JsError ''sessions unavailable'')" by simp
  have l: "launchResult ?W = Inr (Browser (Some ''new''))" by (simp add: exampleWorld_def)
  have r: "fst (renderPage ?W ''https://example.com/'' trackedState) = Inr ''<html>rendered</html>''"
    by (simp add: fetch_eval)
  have d: "disconnectResult ?W = None" by (simp add: exampleWorld_def)
  have n: "now1 ?W = 1000" by (simp add: exampleWorld_def)
  note t = listing_failure_provisions_new_session[OF h1 h2 h3 h4 h5 h6]
  from t n h6 have a: "fst (getOptimalSession 1000 (Inl (JsError ''sessions unavailable''))
      (sessionCache trackedState)) = None"
    by simp
  from t l r d have b: "fst (fetch ?W exampleRequest trackedState) = htmlResponse ''<html>rendered</html>''"
    by blast
  from a b h6 show ?thesis by (simp only: simp_thms)
qed

section \<open>Failure to connect to the chosen session\<close>

text \<open>
  C6. When \<^verbatim>\<open>getOptimalSession\<close> returns a session and \<^verbatim>\<open>puppeteer.connect\<close> to it throws:
  (1) after the acquisition the registry has no entry for that session; (2) the calls of
  the request from the listing on are the listing, the one connect to that session, the
  launch, and then calls among which there is no connect at all; (3) when the request
  ends, the registry has an entry under that id only if the newly launched browser
  itself reports that id.
\<close>

theorem connect_failure_falls_back_to_launch:
  assumes "reqMethod request = ''GET''" "startsWith (pathname request) ''/content/''"
    "drop (length ''/content/'') (pathname request) \<noteq> []"
    "normalizeUrl W (drop (length ''/content/'') (pathname request)) = Some reqUrl"
    "fst (cacheLookup W (cacheKey reqUrl) s) = None"
    "getOptimalSession (now1 W) (sessionsResult W) (sessionCache s) = (Some info, c1)"
    "connectResult W (sessionId info) = Inl err"
  shows "sessionId info \<notin> sessionId ` set (sessionCache (snd (snd (acquire W (snd (cacheLookup W (cacheKey reqUrl) s))))))
     \<and> (\<exists>rest. calls (snd (fetch W request s))
            = calls (snd (cacheLookup W (cacheKey reqUrl) s))
                @ [Sessions, Connect (sessionId info), Launch] @ rest
          \<and> filter isConnect rest = [])
     \<and> (sessionId info \<in> sessionId ` set (sessionCache (snd (fetch W request s)))
          \<longrightarrow> launchResult W = Inr (Browser (Some (sessionId info))))"
proof -
  let ?k = "cacheKey reqUrl"
  let ?s1 = "snd (cacheLookup W ?k s)"
  let ?id = "sessionId info"
  let ?s3 = "?s1\<lparr>sessionCache := cache_delete ?id c1,
                 calls := calls ?s1 @ [Sessions, Connect ?id, Launch]\<rparr>"
  have f: "fetch W request s = renderRequest W reqUrl ?k ?s1"
    using assms(1-5) by (rule fetch_miss)
  have g: "getOptimalSession (now1 W) (sessionsResult W) (sessionCache ?s1) = (Some info, c1)"
    using assms(6) by (simp add: cacheLookup_registry)
  note acq = acquire_connect_fails[OF g assms(7)]
  have s3: "snd (snd (acquire W ?s1)) = ?s3"
    using acq by (simp split: sum.splits)
  have 1: "?id \<notin> sessionId ` set (sessionCache (snd (snd (acquire W ?s1))))"
    unfolding s3 using ids_cache_delete[of ?id c1] by simp
  from calls_renderRequest[of W reqUrl ?k ?s1] f
  have 2: "\<exists>rest. calls (snd (fetch W request s)) = calls ?s1 @ [Sessions, Connect ?id, Launch] @ rest
          \<and> filter isConnect rest = []"
    unfolding s3 by auto
  have 3: "?id \<in> sessionId ` set (sessionCache (snd (fetch W request s)))
          \<longrightarrow> launchResult W = Inr (Browser (Some ?id))"
  proof (cases "launchResult W")
    case (Inl e)
    with acq have "tryBlock W reqUrl ?k ?s1
        = (Inl e, \<lparr>browser = None, launched = False, sessionInfo = None\<rparr>, ?s3)"
      by (simp add: tryBlock_def)
    then have "sessionCache (snd (fetch W request s)) = cache_delete ?id c1"
      unfolding f by (simp add: renderRequest_def cleanup_def)
    then show ?thesis using ids_cache_delete[of ?id c1] by simp
  next
    case (Inr b)
    let ?L = "\<lparr>browser = Some b, launched = True, sessionInfo = None\<rparr>"
    from Inr acq have a: "acquire W ?s1 = (None, ?L, ?s3)" by simp
    obtain r2 s4 where p: "renderPage W reqUrl ?s3 = (r2, s4)" by (metis surj_pair)
    obtain r3 s5 where q: "releaseSession W ?L s4 = (r3, s5)" by (metis surj_pair)
    have c4: "sessionCache s4 = cache_delete ?id c1"
      using renderPage_registry[of W reqUrl ?s3] p by simp
    have c5: "sessionId ` set (sessionCache s5)
        \<subseteq> sessionId ` set (cache_delete ?id c1) \<union> {sid. sessionIdProperty b = Some sid}"
      using releaseSession_registry_launched[of ?L b W s4] q c4 by simp
    have "sessionCache (snd (fetch W request s)) = sessionCache s4
        \<or> sessionCache (snd (fetch W request s)) = sessionCache s5"
      unfolding f using a p q
      by (cases r2; cases r3)
         (simp_all add: renderRequest_def tryBlock_def cleanup_registry_noinfo cacheStore_registry)
    then have "sessionId ` set (sessionCache (snd (fetch W request s)))
        \<subseteq> sessionId ` set (cache_delete ?id c1) \<union> {sid. sessionIdProperty b = Some sid}"
    proof
      assume "sessionCache (snd (fetch W request s)) = sessionCache s4"
      with c4 show ?thesis by (simp only:) (rule Un_upper1)
    next
      assume "sessionCache (snd (fetch W request s)) = sessionCache s5"
      with c5 show ?thesis by (simp only:)
    qed
    with ids_cache_delete[of ?id c1]
    have "?id \<in> sessionId ` set (sessionCache (snd (fetch W request s)))
        \<longrightarrow> sessionIdProperty b = Some ?id" by blast
    with Inr show ?thesis by (cases b) simp
  qed
  from 1 2 3 show ?thesis by blast
qed

theorem connect_failure_falls_back_to_launch_witness:
  "getOptimalSession 1000 (Inr listing1) (sessionCache trackedState)
     = (Some \<lparr>sessionId = ''s1'', lastUsed = 1000, inUse = True\<rparr>,
        [\<lparr>sessionId = ''s1'', lastUsed = 1000, inUse = True\<rparr>])
   \<and> launchResult exampleWorld \<noteq> Inr (Browser (Some ''s1''))
   \<and> ''s1'' \<notin> sessionId ` set (sessionCache (snd (fetch
         (exampleWorld\<lparr>sessionsResult := Inr listing1,
                        connectResult := (\<lambda>k. Inl (JsError ''already connected''))\<rparr>)
         exampleRequest trackedState)))"
proof -
  let ?W = "exampleWorld\<lparr>sessionsResult := Inr listing1,
                         connectResult := (\<lambda>k. Inl (JsError ''already connected''))\<rparr>"
  have h1: "reqMethod exampleRequest = ''GET''" by (simp add: exampleRequest_def)
  have h2: "startsWith (pathname exampleRequest) ''/content/''"
    by (simp add: exampleRequest_def startsWith_def)
  have h3: "drop (length ''/content/'') (pathname exampleRequest) \<noteq> []"
    by (simp add: exampleRequest_def)
  have h4: "normalizeUrl ?W (drop (length ''/content/'') (pathname exampleRequest))
      = Some ''https://example.com/''"
    by (simp add: exampleRequest_def exampleWorld_def timeoutWorld_def)
  have h5: "fst (cacheLookup ?W (cacheKey ''https://example.com/'') trackedState) = None"
    by (simp add: fetch_eval)
  have g: "getOptimalSession 1000 (Inr listing1) (sessionCache trackedState)
     = (Some \<lparr>sessionId = ''s1'', lastUsed = 1000, inUse = True\<rparr>,
        [\<lparr>sessionId = ''s1'', lastUsed = 1000, inUse = True\<rparr>])"
    by (simp add: fetch_eval)
  have h6: "getOptimalSession (now1 ?W) (sessionsResult ?W) (sessionCache trackedState)
     = (Some \<lparr>sessionId = ''s1'', lastUsed = 1000, inUse = True\<rparr>,
        [\<lparr>sessionId = ''s1'', lastUsed = 1000, inUse = True\<rparr>])"
    using g by (simp add: exampleWorld_def)
  have h7: "connectResult ?W (sessionId \<lparr>sessionId = ''s1'', lastUsed = 1000, inUse = True\<rparr>)
      = Inl (JsError ''already connected'')"
    by simp
  have l: "launchResult ?W \<noteq> Inr (Browser (Some ''s1''))" by (simp add: exampleWorld_def)
  from connect_failure_falls_back_to_launch[OF h1 h2 h3 h4 h5 h6 h7] l g
  show ?thesis by (simp add: exampleWorld_def)
qed

section \<open>Release on the error path\<close>

text \<open>
  C2, as stated: a request that holds a session from the registry and ends in an upstream
  fault leaves no registry entry for that session. It fails: with one tracked free
  session \<^verbatim>\<open>s1\<close> and a navigation that times out, the request connects to \<^verbatim>\<open>s1\<close>, answers
  500, and leaves \<^verbatim>\<open>s1\<close> in the registry marked free; the next \<^verbatim>\<open>getOptimalSession\<close>
  returns \<^verbatim>\<open>s1\<close> again.
\<close>

theorem fault_release_keeps_session:
  "status (fst (fetch (timeoutWorld\<lparr>sessionsResult := Inr listing1\<rparr>) exampleRequest trackedState)) = 500
   \<and> calls (snd (fetch (timeoutWorld\<lparr>sessionsResult := Inr listing1\<rparr>) exampleRequest trackedState))
       = [KvGet (cacheKey ''https://example.com/''), Sessions, Connect ''s1'', NewPage,
          SetUserAgent DEFAULT_USER_AGENT, SetRequestInterception, Goto ''https://example.com/'']
   \<and> sessionCache (snd (fetch (timeoutWorld\<lparr>sessionsResult := Inr listing1\<rparr>) exampleRequest trackedState))
       = [\<lparr>sessionId = ''s1'', lastUsed = 1000, inUse = False\<rparr>]
   \<and> fst (getOptimalSession 3000 (Inr listing1) [\<lparr>sessionId = ''s1'', lastUsed = 1000, inUse = False\<rparr>])
       = Some \<lparr>sessionId = ''s1'', lastUsed = 3000, inUse = True\<rparr>"
  by (simp add: fetch_eval)

text \<open>
  C2, amended: when a request that holds a session from the registry (chosen by
  \<^verbatim>\<open>getOptimalSession\<close> and connected to) ends in a fault of a page call, the answer is 500
  with the error's message, and the release on the error path removes the session's
  registry entry only if the error is an \<^verbatim>\<open>Error\<close> whose message contains
  \<^verbatim>\<open>Cannot read properties of null\<close>; after any other fault the entry stays, marked free,
  with the \<open>lastUsed\<close> the acquisition gave it.
\<close>

theorem fault_release_by_error_kind:
  assumes "reqMethod request = ''GET''" "startsWith (pathname request) ''/content/''"
    "drop (length ''/content/'') (pathname request) \<noteq> []"
    "normalizeUrl W (drop (length ''/content/'') (pathname request)) = Some reqUrl"
    "fst (cacheLookup W (cacheKey reqUrl) s) = None"
    "getOptimalSession (now1 W) (sessionsResult W) (sessionCache s) = (Some info, c1)"
    "connectResult W (sessionId info) = Inr b"
    "fst (renderPage W reqUrl s) = Inl err"
    "distinct (map sessionId (sessionCache s))"
  shows "status (fst (fetch W request s)) = 500
     \<and> body (fst (fetch W request s))
         = Json [(''success'', JBool False), (''error'', JString (errorMessage err)),
                 (''url'', JString reqUrl), (''timestamp'', JString (timestamp W))]
     \<and> (if isNullReadError err
         then sessionId info \<notin> sessionId ` set (sessionCache (snd (fetch W request s)))
         else cache_get (sessionId info) (sessionCache (snd (fetch W request s)))
                = Some \<lparr>sessionId = sessionId info, lastUsed = now1 W, inUse = False\<rparr>)"
proof -
  let ?k = "cacheKey reqUrl"
  let ?s1 = "snd (cacheLookup W ?k s)"
  let ?id = "sessionId info"
  let ?L = "\<lparr>browser = Some b, launched = False, sessionInfo = Some info\<rparr>"
  let ?s2 = "?s1\<lparr>sessionCache := c1, calls := calls ?s1 @ [Sessions, Connect ?id]\<rparr>"
  have f: "fetch W request s = renderRequest W reqUrl ?k ?s1"
    using assms(1-5) by (rule fetch_miss)
  have g: "getOptimalSession (now1 W) (sessionsResult W) (sessionCache ?s1) = (Some info, c1)"
    using assms(6) by (simp add: cacheLookup_registry)
  have a: "acquire W ?s1 = (None, ?L, ?s2)"
    using acquire_connect_ok[OF g assms(7)] .
  obtain r2 s3 where p: "renderPage W reqUrl ?s2 = (r2, s3)" by (metis surj_pair)
  have r2: "r2 = Inl err" using p assms(8) renderPage_fst[of W reqUrl ?s2 s] by simp
  have c3: "sessionCache s3 = c1" using renderPage_registry[of W reqUrl ?s2] p by simp
  have t: "tryBlock W reqUrl ?k ?s1 = (Inl err, ?L, s3)"
    using a p r2 by (simp add: tryBlock_def)
  then have r: "fetch W request s = (faultResponse W err reqUrl, cleanup err ?L s3)"
    unfolding f by (simp add: renderRequest_def)
  have reg: "sessionCache (snd (fetch W request s)) =
     (if isNullReadError err then cache_delete ?id c1
      else cache_modify ?id (\<lambda>i. i\<lparr>inUse := False\<rparr>) c1)"
    unfolding r using cleanup_registry_info[of ?L b info err s3] c3 by simp
  from assms(6) obtain act where act: "sessionsResult W = Inr act"
    using getOptimalSession_Some_listing by blast
  from getOptimalSession_Some_facts[OF assms(6)[unfolded act] assms(9)]
  have i: "cache_get ?id c1 = Some info" "inUse info" "lastUsed info = now1 W"
    by blast+
  have 3: "if isNullReadError err
         then ?id \<notin> sessionId ` set (sessionCache (snd (fetch W request s)))
         else cache_get ?id (sessionCache (snd (fetch W request s)))
                = Some \<lparr>sessionId = ?id, lastUsed = now1 W, inUse = False\<rparr>"
  proof (cases "isNullReadError err")
    case True
    with reg show ?thesis using ids_cache_delete[of ?id c1] by simp
  next
    case False
    have "cache_get ?id (cache_modify ?id (\<lambda>i. i\<lparr>inUse := False\<rparr>) c1)
        = map_option (\<lambda>i. i\<lparr>inUse := False\<rparr>) (cache_get ?id c1)"
      by (rule cache_get_modify_map) simp
    also have "\<dots> = Some (info\<lparr>inUse := False\<rparr>)" using i(1) by simp
    also have "info\<lparr>inUse := False\<rparr> = \<lparr>sessionId = ?id, lastUsed = now1 W, inUse = False\<rparr>"
      using i(3) by (cases info) simp
    finally show ?thesis using False reg by simp
  qed
  from r 3 show ?thesis by (simp add: faultResponse_def)
qed

theorem fault_release_by_error_kind_witness:
  "reqMethod exampleRequest = ''GET'' \<and> startsWith (pathname exampleRequest) ''/content/''
   \<and> fst (cacheLookup (timeoutWorld\<lparr>sessionsResult := Inr listing1\<rparr>) (cacheKey ''https://example.com/'') trackedState) = None
   \<and> getOptimalSession (now1 (timeoutWorld\<lparr>sessionsResult := Inr listing1\<rparr>))
        (sessionsResult (timeoutWorld\<lparr>sessionsResult := Inr listing1\<rparr>)) (sessionCache trackedState)
       = (Some \<lparr>sessionId = ''s1'', lastUsed = 1000, inUse = True\<rparr>,
          [\<lparr>sessionId = ''s1'', lastUsed = 1000, inUse = True\<rparr>])
   \<and> \<not> isNullReadError (JsError ''Navigation timeout of 15000 ms exceeded'')
   \<and> cache_get ''s1'' (sessionCache (snd (fetch (timeoutWorld\<lparr>sessionsResult := Inr listing1\<rparr>) exampleRequest trackedState)))
       = Some \<lparr>sessionId = ''s1'', lastUsed = 1000, inUse = False\<rparr>"
proof -
  let ?W = "timeoutWorld\<lparr>sessionsResult := Inr listing1\<rparr>"
  have h1: "reqMethod exampleRequest = ''GET''" by (simp add: exampleRequest_def)
  have h2: "startsWith (pathname exampleRequest) ''/content/''"
    by (simp add: exampleRequest_def startsWith_def)
  have h3: "drop (length ''/content/'') (pathname exampleRequest) \<noteq> []"
    by (simp add: exampleRequest_def)
  have h4: "normalizeUrl ?W (drop (length ''/content/'') (pathname exampleRequest))
      = Some ''https://example.com/''"
    by (simp add: exampleRequest_def exampleWorld_def timeoutWorld_def)
  have h5: "fst (cacheLookup ?W (cacheKey ''https://example.com/'') trackedState) = None"
    by (simp add: fetch_eval)
  have h6: "getOptimalSession (now1 ?W) (sessionsResult ?W) (sessionCache trackedState)
       = (Some \<lparr>sessionId = ''s1'', lastUsed = 1000, inUse = True\<rparr>,
          [\<lparr>sessionId = ''s1'', lastUsed = 1000, inUse = True\<rparr>])"
    by (simp add: fetch_eval)
  have h7: "connectResult ?W (sessionId \<lparr>sessionId = ''s1'', lastUsed = 1000, inUse = True\<rparr>)
      = Inr (Browser (Some ''s1''))"
    by (simp add: exampleWorld_def timeoutWorld_def)
  have h8: "fst (renderPage ?W ''https://example.com/'' trackedState)
      = Inl (JsError ''Navigation timeout of 15000 ms exceeded'')"
    by (simp add: fetch_eval)
  have h9: "distinct (map sessionId (sessionCache trackedState))"
    by (simp add: trackedState_def emptyState_def)
  have n: "\<not> isNullReadError (JsError ''Navigation timeout of 15000 ms exceeded'')"
    by (simp add: isNullReadError_def startsWith_def)
  from fault_release_by_error_kind[OF h1 h2 h3 h4 h5 h6 h7 h8 h9] n h1 h2 h5 h6
  show ?thesis by (simp add: timeoutWorld_def exampleWorld_def)
qed

section \<open>Target pages that answer with an error status\<close>

text \<open>
  The \<^verbatim>\<open>?url=\<close> handler turns a 404 into the error the claim names; the \<^verbatim>\<open>/content/\<close>
  handler gives the same response and leaves the same state whatever \<^verbatim>\<open>page.goto\<close>
  resolves to.
\<close>

lemma legacy_404: "legacyStatusCheck (Some 404) = Some (JsError ''Failed to load page: 404'')"
  by (simp add: legacyStatusCheck_def showNat.simps[of 404] showNat.simps[of 40] showNat.simps[of 4])

lemma renderPage_goto_response:
  "gotoResult W = Inr response \<Longrightarrow> renderPage (W\<lparr>gotoResult := Inr response'\<rparr>) u s = renderPage W u s"
  by (simp add: renderPage_def Let_def split: option.splits sum.splits)

lemma goto_response_ignored:
  assumes "gotoResult W = Inr response"
  shows "fetch (W\<lparr>gotoResult := Inr response'\<rparr>) request s = fetch W request s"
proof -
  let ?W' = "W\<lparr>gotoResult := Inr response'\<rparr>"
  have 1: "cacheLookup ?W' k s0 = cacheLookup W k s0" for k s0
    by (simp add: cacheLookup_def Let_def split: option.splits)
  have 2: "acquire ?W' s0 = acquire W s0" for s0
    by (simp add: acquire_def Let_def split: prod.splits option.splits sum.splits)
  have 3: "renderPage ?W' u s0 = renderPage W u s0" for u s0
    using assms by (rule renderPage_goto_response)
  have 4: "releaseSession ?W' L s0 = releaseSession W L s0" for L s0
    by (simp add: releaseSession_def Let_def split: option.splits)
  have 5: "cacheStore ?W' k h s0 = cacheStore W k h s0" for k h s0
    by (simp add: cacheStore_def Let_def split: option.splits)
  have 6: "faultResponse ?W' e u = faultResponse W e u" for e u by (simp add: faultResponse_def)
  have 7: "tryBlock ?W' u k s0 = tryBlock W u k s0" for u k s0
    by (simp add: tryBlock_def 2 3 4 5 split: prod.splits option.splits sum.splits)
  have 8: "renderRequest ?W' u k s0 = renderRequest W u k s0" for u k s0
    by (simp add: renderRequest_def 6 7 split: prod.splits sum.splits)
  show ?thesis by (simp add: fetch_def 1 8 Let_def split: prod.splits option.splits)
qed


text \<open>
  C1: a target page that answers 404 makes the worker answer 500 with an error containing
  \<^verbatim>\<open>Failed to load page: 404\<close>. The handler does not do that: it drops the value that
  \<^verbatim>\<open>page.goto\<close> resolves to (\<open>goto_response_ignored\<close>), so for the request \<^verbatim>\<open>GET /content/https://example.com\<close>
  whose target answers 404, it answers 200 with the error page's HTML and stores that HTML
  in the Content Store.
\<close>

theorem not_found_page_is_served:
  "status (fst (fetch notFoundWorld exampleRequest emptyState)) = 200
   \<and> body (fst (fetch notFoundWorld exampleRequest emptyState)) = Text ''<html>404 Not Found</html>''
   \<and> kv (snd (fetch notFoundWorld exampleRequest emptyState)) (cacheKey ''https://example.com/'')
       = Some (''<html>404 Not Found</html>'', 3600)"
  by (simp add: fetch_eval)

end
